theory Spec2Isabelle
  imports Main "HOL-Library.AList" "HOL-Library.Monad_Syntax"
begin

section \<open>Syntax trees as JavaScript values\<close>

text \<open>
  The loaders work on the trees esprima returns: plain JavaScript objects whose fields hold
  strings, numbers, booleans, \<open>null\<close>, further objects and arrays.  \<open>replaceIdentifier\<close>
  and \<open>findInlineToken\<close> walk such a tree through \<open>Object.keys\<close>, without knowing the node
  kinds, so the trees are modelled as untyped values.  An object is the list of its own
  enumerable fields in \<open>Object.keys\<close> order; a JavaScript object has every key once, so the
  lists that stand for objects have distinct keys.  Numbers are only ever copied, never
  computed with, and are modelled as integers.
\<close>

datatype jsval =
    Undefined
  | Null
  | Bool bool
  | Num int
  | Str string
  | Arr "jsval list"
  | Obj "(string \<times> jsval) list"

text \<open>What a JavaScript evaluation can raise here: a \<open>TypeError\<close> (reading a field of
  \<open>null\<close> or \<open>undefined\<close>, calling something that is not a function), or the error the
  parser throws on text that is not a program.

  \<open>SharedWrite\<close> is not raised by JavaScript.  It marks the one kind of step that is not
  followed here: the assignment \<open>scopeFunctions[name].exported = true\<close> of the export resolver
  when \<open>scopeFunctions[name]\<close> is not an entry of the table but \<open>Object.prototype\<close> itself, or
  a syntax node that the table inherits from a replaced prototype.  The write then changes
  an object which the parser, the generator and every later call share, and what they do
  with it is not part of the model: a result \<open>Inl SharedWrite\<close> says nothing about the
  program.\<close>

datatype error = TypeError | SyntaxError string | SharedWrite

definition bindE :: "error + 'a \<Rightarrow> ('a \<Rightarrow> error + 'b) \<Rightarrow> error + 'b" where
  "bindE m f = (case m of Inl e \<Rightarrow> Inl e | Inr x \<Rightarrow> f x)"

text \<open>\<open>field kvs k\<close> is \<open>o[k]\<close> for an object with the own fields \<open>kvs\<close>: a missing field reads
  as \<open>undefined\<close>.\<close>

definition field :: "(string \<times> jsval) list \<Rightarrow> string \<Rightarrow> jsval" where
  "field kvs k = (case map_of kvs k of None \<Rightarrow> Undefined | Some v \<Rightarrow> v)"

text \<open>\<open>getProp v k\<close> is the member expression \<open>v.k\<close>.  It raises on \<open>null\<close> and \<open>undefined\<close>.
  The program reads only the fields \<open>type\<close>, \<open>name\<close>, \<open>body\<close>, \<open>id\<close>, \<open>init\<close>, \<open>declarations\<close>,
  \<open>declaration\<close>, \<open>key\<close>, \<open>value\<close>, \<open>static\<close>, \<open>expression\<close>, \<open>left\<close>, \<open>right\<close>, \<open>object\<close>,
  \<open>property\<close>, \<open>properties\<close>, \<open>params\<close>, \<open>argument\<close>, \<open>arguments\<close>, \<open>callee\<close> and \<open>range\<close>
  this way; an array, a string, a number and a boolean have none of them.\<close>

fun getProp :: "jsval \<Rightarrow> string \<Rightarrow> error + jsval" where
  "getProp Undefined k = Inl TypeError"
| "getProp Null k = Inl TypeError"
| "getProp (Obj kvs) k = Inr (field kvs k)"
| "getProp v k = Inr Undefined"

text \<open>JavaScript truthiness, as \<open>if (v)\<close>, \<open>!v\<close> and \<open>a && b\<close> test it.\<close>

fun truthy :: "jsval \<Rightarrow> bool" where
  "truthy Undefined = False"
| "truthy Null = False"
| "truthy (Bool b) = b"
| "truthy (Num n) = (n \<noteq> 0)"
| "truthy (Str s) = (s \<noteq> [])"
| "truthy (Arr xs) = True"
| "truthy (Obj kvs) = True"

text \<open>The keys \<open>Object.keys\<close> gives for an array or a string: the indices in decimal.\<close>

fun showNat :: "nat \<Rightarrow> string" where
  "showNat n =
     (if n < 10 then [char_of (48 + n)]
      else showNat (n div 10) @ [char_of (48 + n mod 10)])"

declare showNat.simps [simp del]

definition indexKeys :: "nat \<Rightarrow> string list" where
  "indexKeys n = map showNat [0..<n]"

text \<open>\<open>a === b\<close>.  Primitive values are compared by value; objects and arrays by identity.
  The program compares names read from tree nodes with string constants and with each
  other; a name that is an object or an array does not occur in a parsed tree, and the
  model answers \<open>false\<close> for it.\<close>

fun strictEq :: "jsval \<Rightarrow> jsval \<Rightarrow> bool" where
  "strictEq (Obj kvs) b = False"
| "strictEq (Arr xs) b = False"
| "strictEq a b = (a = b)"

text \<open>\<open>v[i]\<close> and \<open>v.length\<close>.\<close>

fun getIndex :: "jsval \<Rightarrow> nat \<Rightarrow> error + jsval" where
  "getIndex Undefined i = Inl TypeError"
| "getIndex Null i = Inl TypeError"
| "getIndex (Arr xs) i = Inr (if i < length xs then xs ! i else Undefined)"
| "getIndex (Str s) i = Inr (if i < length s then Str [s ! i] else Undefined)"
| "getIndex (Obj kvs) i = Inr (field kvs (showNat i))"
| "getIndex v i = Inr Undefined"

fun getLength :: "jsval \<Rightarrow> error + jsval" where
  "getLength Undefined = Inl TypeError"
| "getLength Null = Inl TypeError"
| "getLength (Arr xs) = Inr (Num (int (length xs)))"
| "getLength (Str s) = Inr (Num (int (length s)))"
| "getLength (Obj kvs) = Inr (field kvs ''length'')"
| "getLength v = Inr Undefined"

text \<open>\<open>String(v)\<close>, as string concatenation and the use of a value as a property key
  apply it.  Objects are plain (no \<open>toString\<close> of their own).\<close>

definition showInt :: "int \<Rightarrow> string" where
  "showInt i = (if i < 0 then CHR ''-'' # showNat (nat (- i)) else showNat (nat i))"

fun toStringJS :: "jsval \<Rightarrow> string"
  and joinElements :: "jsval list \<Rightarrow> string"
where
  "toStringJS Undefined = ''undefined''"
| "toStringJS Null = ''null''"
| "toStringJS (Bool b) = (if b then ''true'' else ''false'')"
| "toStringJS (Num n) = showInt n"
| "toStringJS (Str s) = s"
| "toStringJS (Obj kvs) = ''[object Object]''"
| "toStringJS (Arr xs) = joinElements xs"
| "joinElements [] = []"
| "joinElements (x # xs) =
     (if x = Null \<or> x = Undefined then [] else toStringJS x) @
     (if xs = [] then [] else '','' @ joinElements xs)"

text \<open>\<open>a.forEach(f)\<close> and \<open>a.reduce(f, s)\<close> with the state the callback updates made
  explicit.  Every element is visited in order; a callback that raises ends the loop;
  a receiver that is not an array has no such method to call.\<close>

fun foldE :: "('s \<Rightarrow> jsval \<Rightarrow> error + 's) \<Rightarrow> jsval list \<Rightarrow> 's \<Rightarrow> error + 's" where
  "foldE f [] s = Inr s"
| "foldE f (x # xs) s = bindE (f s x) (foldE f xs)"

fun forEach :: "jsval \<Rightarrow> ('s \<Rightarrow> jsval \<Rightarrow> error + 's) \<Rightarrow> 's \<Rightarrow> error + 's" where
  "forEach (Arr xs) f s = foldE f xs s"
| "forEach v f s = Inl TypeError"

section \<open>Identifier substitution: \<open>replaceIdentifier\<close>\<close>

text \<open>The scan for a shadowing declaration, the body of
  \<open>if (Array.isArray(inAst.body)) { ... }\<close>; the state of the loops is the flag
  \<open>isShadowed\<close>.  \<open>declares\<close> is the callback
  \<open>if (node.id.name === name) isShadowed = true\<close> on one declarator.\<close>

definition declares :: "jsval \<Rightarrow> bool \<Rightarrow> jsval \<Rightarrow> error + bool" where
  "declares name isShadowed d =
     bindE (getProp d ''id'') (\<lambda>i.
     bindE (getProp i ''name'') (\<lambda>n. Inr (isShadowed \<or> strictEq n name)))"

text \<open>One statement of the list: the two \<open>if\<close>s of the callback, in the source's order.\<close>

definition stmtShadows :: "jsval \<Rightarrow> bool \<Rightarrow> jsval \<Rightarrow> error + bool" where
  "stmtShadows name isShadowed node =
     bindE (getProp node ''type'') (\<lambda>t.
     bindE (if t = Str ''VariableDeclaration''
            then bindE (getProp node ''declarations'') (\<lambda>ds. forEach ds (declares name) isShadowed)
            else Inr isShadowed) (\<lambda>isShadowed.
     if t = Str ''ForStatement''
     then bindE (getProp node ''init'') (\<lambda>i.
          if truthy i
          then bindE (getProp i ''type'') (\<lambda>it.
               if it = Str ''VariableDeclaration''
               then bindE (getProp i ''declarations'') (\<lambda>ds. forEach ds (declares name) isShadowed)
               else Inr isShadowed)
          else Inr isShadowed)
     else Inr isShadowed))"

text \<open>\<open>Array.isArray(inAst.body)\<close> guards the scan; \<open>inAst\<close> is an object here.\<close>

definition shadowedAt :: "jsval \<Rightarrow> (string \<times> jsval) list \<Rightarrow> error + bool" where
  "shadowedAt name kvs =
     (case field kvs ''body'' of
        Arr stmts \<Rightarrow> foldE (stmtShadows name) stmts False
      | _ \<Rightarrow> Inr False)"

text \<open>\<open>inAst.type === 'Identifier' && inAst.name === name\<close> on an object.\<close>

definition isIdentifier :: "jsval \<Rightarrow> (string \<times> jsval) list \<Rightarrow> bool" where
  "isIdentifier name kvs \<longleftrightarrow>
     field kvs ''type'' = Str ''Identifier'' \<and> strictEq (field kvs ''name'') name"

text \<open>
  \<open>replaceIdentifier name withAst inAst\<close>.  The final \<open>reduce\<close> over \<open>Object.keys(inAst)\<close>
  builds a fresh object with the same keys: \<open>replaceFields\<close> is that loop over the fields of
  an object, \<open>replaceValue\<close> its body for one field value (an array is mapped, an object
  is recursed into, anything else is copied), and \<open>replaceElements\<close> is
  \<open>value.map(replaceIdentifier.bind({}, name, withAst))\<close>.  \<open>map\<close> hands every element to
  \<open>replaceIdentifier\<close>, whatever it is: \<open>null\<close> raises at \<open>inAst.type\<close>; a number or a boolean
  has no keys and comes back as the empty object; an array or a string is enumerated by
  its indices (\<open>replaceValues\<close>).
\<close>

fun replaceIdentifier :: "jsval \<Rightarrow> jsval \<Rightarrow> jsval \<Rightarrow> error + jsval"
  and replaceValue :: "jsval \<Rightarrow> jsval \<Rightarrow> jsval \<Rightarrow> error + jsval"
  and replaceElements :: "jsval \<Rightarrow> jsval \<Rightarrow> jsval list \<Rightarrow> error + jsval list"
  and replaceFields :: "jsval \<Rightarrow> jsval \<Rightarrow> (string \<times> jsval) list \<Rightarrow> error + (string \<times> jsval) list"
  and replaceValues :: "jsval \<Rightarrow> jsval \<Rightarrow> jsval list \<Rightarrow> error + jsval list"
where
  "replaceIdentifier name withAst Undefined = Inl TypeError"
| "replaceIdentifier name withAst Null = Inl TypeError"
| "replaceIdentifier name withAst (Bool b) = Inr (Obj [])"
| "replaceIdentifier name withAst (Num n) = Inr (Obj [])"
| "replaceIdentifier name withAst (Str s) =
     Inr (Obj (zip (indexKeys (length s)) (map (\<lambda>c. Str [c]) s)))"
| "replaceIdentifier name withAst (Arr xs) =
     (case replaceValues name withAst xs of
        Inl e \<Rightarrow> Inl e
      | Inr ys \<Rightarrow> Inr (Obj (zip (indexKeys (length xs)) ys)))"
| "replaceIdentifier name withAst (Obj kvs) =
     (if isIdentifier name kvs then Inr withAst
      else case shadowedAt name kvs of
        Inl e \<Rightarrow> Inl e
      | Inr True \<Rightarrow> Inr (Obj kvs)
      | Inr False \<Rightarrow>
          (case replaceFields name withAst kvs of
             Inl e \<Rightarrow> Inl e
           | Inr kvs' \<Rightarrow> Inr (Obj kvs')))"
| "replaceValue name withAst (Arr xs) =
     (case replaceElements name withAst xs of Inl e \<Rightarrow> Inl e | Inr ys \<Rightarrow> Inr (Arr ys))"
| "replaceValue name withAst (Obj kvs) = replaceIdentifier name withAst (Obj kvs)"
| "replaceValue name withAst v = Inr v"
| "replaceElements name withAst [] = Inr []"
| "replaceElements name withAst (x # xs) =
     (case replaceIdentifier name withAst x of
        Inl e \<Rightarrow> Inl e
      | Inr y \<Rightarrow>
          (case replaceElements name withAst xs of Inl e \<Rightarrow> Inl e | Inr ys \<Rightarrow> Inr (y # ys)))"
| "replaceFields name withAst [] = Inr []"
| "replaceFields name withAst ((k, v) # kvs) =
     (case replaceValue name withAst v of
        Inl e \<Rightarrow> Inl e
      | Inr v' \<Rightarrow>
          (case replaceFields name withAst kvs of
             Inl e \<Rightarrow> Inl e
           | Inr kvs' \<Rightarrow> Inr ((k, v') # kvs')))"
| "replaceValues name withAst [] = Inr []"
| "replaceValues name withAst (x # xs) =
     (case replaceValue name withAst x of
        Inl e \<Rightarrow> Inl e
      | Inr y \<Rightarrow>
          (case replaceValues name withAst xs of Inl e \<Rightarrow> Inl e | Inr ys \<Rightarrow> Inr (y # ys)))"

section \<open>The export resolver: \<open>getExportedFunctions\<close>\<close>

text \<open>
  \<open>scopeFunctions\<close> maps a function name to \<open>{exported: ..., ast: ...}\<close>.  It starts as the
  plain object \<open>{}\<close>, so a name is looked up in three places: the object's own properties,
  the object that an assignment to \<open>scopeFunctions['__proto__']\<close> has made its prototype (if
  there was one), and \<open>Object.prototype\<close>.

  The own properties are a list in insertion order, the key being the name as a string.
  (\<open>Object.keys\<close> lists keys that are array indices first; the name of an identifier is never
  one, and the properties below look entries up by name only.)
\<close>

record fnEntry =
  exported :: bool
  ast :: jsval

record scope =
  entries :: "(string \<times> fnEntry) list"
  prototype :: "fnEntry option"

definition emptyScope :: scope where
  "emptyScope = \<lparr>entries = [], prototype = None\<rparr>"

text \<open>The properties every object has from \<open>Object.prototype\<close>, as ECMAScript and its
  Annex B define them, beside the accessor \<open>__proto__\<close>.  Each is a function.  (A realm in
  which a program has added properties to \<open>Object.prototype\<close> is not modelled.)\<close>

definition objectPrototypeKeys :: "string list" where
  "objectPrototypeKeys =
     [''constructor'', ''__defineGetter__'', ''__defineSetter__'', ''hasOwnProperty'',
      ''__lookupGetter__'', ''__lookupSetter__'', ''isPrototypeOf'', ''propertyIsEnumerable'',
      ''toString'', ''valueOf'', ''toLocaleString'']"

text \<open>What \<open>scopeFunctions[k]\<close> evaluates to: an entry of the table; the prototype itself, for
  \<open>__proto__\<close>; a property of the entry that was made the prototype (its \<open>exported\<close> flag or its
  \<open>ast\<close>); a function of \<open>Object.prototype\<close>; or \<open>undefined\<close>.\<close>

datatype found =
    Entry fnEntry
  | ProtoObject
  | ProtoField jsval
  | BuiltInFunction
  | NotFound

definition protoField :: "fnEntry option \<Rightarrow> string \<Rightarrow> jsval option" where
  "protoField p k =
     (case p of
        None \<Rightarrow> None
      | Some e \<Rightarrow>
          if k = ''exported'' then Some (Bool (exported e))
          else if k = ''ast'' then Some (ast e)
          else None)"

definition lookupScope :: "scope \<Rightarrow> string \<Rightarrow> found" where
  "lookupScope scopeFunctions k =
     (case map_of (entries scopeFunctions) k of
        Some e \<Rightarrow> Entry e
      | None \<Rightarrow>
          if k = ''__proto__'' then ProtoObject
          else case protoField (prototype scopeFunctions) k of
            Some v \<Rightarrow> ProtoField v
          | None \<Rightarrow> if k \<in> set objectPrototypeKeys then BuiltInFunction else NotFound)"

text \<open>\<open>scopeFunctions[k] !== undefined\<close>.\<close>

fun defined :: "found \<Rightarrow> bool" where
  "defined NotFound = False"
| "defined (ProtoField v) = (v \<noteq> Undefined)"
| "defined x = True"

text \<open>\<open>scopeFunctions[n] = {exported: e, ast: a}\<close>.  For the name \<open>__proto__\<close> the assignment
  runs the setter of \<open>Object.prototype\<close>: the new object becomes the prototype of
  \<open>scopeFunctions\<close>, and no own property is made.  For every other name it makes or replaces
  the own property.\<close>

definition setEntry :: "scope \<Rightarrow> jsval \<Rightarrow> bool \<Rightarrow> jsval \<Rightarrow> scope" where
  "setEntry scopeFunctions name e a =
     (if toStringJS name = ''__proto__''
      then scopeFunctions\<lparr>prototype := Some \<lparr>exported = e, ast = a\<rparr>\<rparr>
      else scopeFunctions\<lparr>entries :=
             AList.update (toStringJS name) \<lparr>exported = e, ast = a\<rparr> (entries scopeFunctions)\<rparr>)"

text \<open>\<open>scopeFunctions[k].exported = true\<close>.  On an entry of the table, and on the entry that
  is the prototype, the flag is set.  A function of \<open>Object.prototype\<close> takes the property
  itself, and the table is as before; a boolean, a number and a string take none (the
  loaders are not in strict mode); \<open>null\<close> and \<open>undefined\<close> raise.  The write to
  \<open>Object.prototype\<close> itself and the write to a syntax node are where the model stops.\<close>

definition markExported :: "scope \<Rightarrow> string \<Rightarrow> error + scope" where
  "markExported scopeFunctions k =
     (case lookupScope scopeFunctions k of
        Entry e \<Rightarrow>
          Inr (scopeFunctions\<lparr>entries :=
                 AList.update k (e\<lparr>exported := True\<rparr>) (entries scopeFunctions)\<rparr>)
      | ProtoObject \<Rightarrow>
          (case prototype scopeFunctions of
             Some p \<Rightarrow> Inr (scopeFunctions\<lparr>prototype := Some (p\<lparr>exported := True\<rparr>)\<rparr>)
           | None \<Rightarrow> Inl SharedWrite)
      | ProtoField v \<Rightarrow>
          (case v of
             Undefined \<Rightarrow> Inl TypeError
           | Null \<Rightarrow> Inl TypeError
           | Obj kvs \<Rightarrow> Inl SharedWrite
           | Arr xs \<Rightarrow> Inl SharedWrite
           | _ \<Rightarrow> Inr scopeFunctions)
      | BuiltInFunction \<Rightarrow> Inr scopeFunctions
      | NotFound \<Rightarrow> Inl TypeError)"

text \<open>\<open>scopeFunctions[k].ast\<close>.  \<open>Object.prototype\<close> and its functions have no such property.\<close>

definition foundAst :: "scope \<Rightarrow> string \<Rightarrow> error + jsval" where
  "foundAst scopeFunctions k =
     (case lookupScope scopeFunctions k of
        Entry e \<Rightarrow> Inr (ast e)
      | ProtoObject \<Rightarrow>
          Inr (case prototype scopeFunctions of Some p \<Rightarrow> ast p | None \<Rightarrow> Undefined)
      | ProtoField v \<Rightarrow> getProp v ''ast''
      | BuiltInFunction \<Rightarrow> Inr Undefined
      | NotFound \<Rightarrow> Inl TypeError)"

text \<open>The callback of \<open>node.declarations.forEach\<close> (variable-defined functions).\<close>

definition variableDeclarator :: "scope \<Rightarrow> jsval \<Rightarrow> error + scope" where
  "variableDeclarator scopeFunctions node =
     bindE (getProp node ''init'') (\<lambda>init.
     bindE (getProp init ''type'') (\<lambda>t.
     if t = Str ''FunctionExpression''
     then bindE (getProp node ''id'') (\<lambda>i.
          bindE (getProp i ''name'') (\<lambda>n. Inr (setEntry scopeFunctions n False init)))
     else Inr scopeFunctions))"

text \<open>The callback of \<open>node.declaration.body.body.forEach\<close> (static methods of the default
  class).\<close>

definition classMember :: "scope \<Rightarrow> jsval \<Rightarrow> error + scope" where
  "classMember scopeFunctions node =
     bindE (getProp node ''type'') (\<lambda>t.
     bindE (getProp node ''static'') (\<lambda>st.
     if t = Str ''MethodDefinition'' \<and> truthy st
     then bindE (getProp node ''key'') (\<lambda>k.
          bindE (getProp k ''name'') (\<lambda>n.
          bindE (getProp node ''value'') (\<lambda>v. Inr (setEntry scopeFunctions n True v))))
     else Inr scopeFunctions))"

text \<open>The callback of \<open>node.expression.right.properties.forEach\<close> (the \<open>module.exports\<close>
  bag).\<close>

definition bagProperty :: "scope \<Rightarrow> jsval \<Rightarrow> error + scope" where
  "bagProperty scopeFunctions node =
     bindE (getProp node ''key'') (\<lambda>k.
     bindE (getProp k ''name'') (\<lambda>name.
     bindE (getProp node ''value'') (\<lambda>v.
     bindE (getProp v ''type'') (\<lambda>t.
     bindE (getProp v ''name'') (\<lambda>vname.
     if t = Str ''Identifier'' \<and> defined (lookupScope scopeFunctions (toStringJS vname))
     then if strictEq name vname
          then markExported scopeFunctions (toStringJS name)
          else bindE (foundAst scopeFunctions (toStringJS vname)) (\<lambda>a.
               Inr (setEntry scopeFunctions name True a))
     else if t = Str ''FunctionExpression''
     then Inr (setEntry scopeFunctions name True v)
     else Inr scopeFunctions)))))"

text \<open>The test that guards the CommonJs case, with the short circuit of \<open>&&\<close>: a conjunct is
  read only when those before it hold.\<close>

definition isExportsBag :: "jsval \<Rightarrow> jsval \<Rightarrow> error + bool" where
  "isExportsBag t node =
     (if t \<noteq> Str ''ExpressionStatement'' then Inr False
      else bindE (getProp node ''expression'') (\<lambda>ex.
           bindE (getProp ex ''left'') (\<lambda>l.
           bindE (getProp l ''type'') (\<lambda>lt.
           if lt \<noteq> Str ''MemberExpression'' then Inr False
           else bindE (getProp l ''object'') (\<lambda>ob.
                bindE (getProp ob ''name'') (\<lambda>on.
                if on \<noteq> Str ''module'' then Inr False
                else bindE (getProp l ''property'') (\<lambda>pr.
                     bindE (getProp pr ''name'') (\<lambda>pn.
                     if pn \<noteq> Str ''exports'' then Inr False
                     else bindE (getProp ex ''right'') (\<lambda>r.
                          bindE (getProp r ''type'') (\<lambda>rt.
                          Inr (rt = Str ''ObjectExpression'')))))))))))"

text \<open>The callback of \<open>ast.body.reduce\<close>: one top-level statement.\<close>

definition topLevel :: "scope \<Rightarrow> jsval \<Rightarrow> error + scope" where
  "topLevel scopeFunctions node =
     bindE (getProp node ''type'') (\<lambda>t.
     if t = Str ''ExportNamedDeclaration''
     then bindE (getProp node ''declaration'') (\<lambda>d.
          bindE (getProp d ''type'') (\<lambda>dt.
          if dt = Str ''FunctionDeclaration''
          then bindE (getProp d ''id'') (\<lambda>i.
               bindE (getProp i ''name'') (\<lambda>n. Inr (setEntry scopeFunctions n True d)))
          else Inr scopeFunctions))
     else if t = Str ''FunctionDeclaration''
     then bindE (getProp node ''id'') (\<lambda>i.
          bindE (getProp i ''name'') (\<lambda>n. Inr (setEntry scopeFunctions n False node)))
     else if t = Str ''VariableDeclaration''
     then bindE (getProp node ''declarations'') (\<lambda>ds. forEach ds variableDeclarator scopeFunctions)
     else bindE (if t = Str ''ExportDefaultDeclaration''
                 then bindE (getProp node ''declaration'') (\<lambda>d.
                      bindE (getProp d ''type'') (\<lambda>dt. Inr (dt = Str ''ClassDeclaration'')))
                 else Inr False) (\<lambda>isClass.
          if isClass
          then bindE (getProp node ''declaration'') (\<lambda>d.
               bindE (getProp d ''body'') (\<lambda>b.
               bindE (getProp b ''body'') (\<lambda>ms. forEach ms classMember scopeFunctions)))
          else bindE (isExportsBag t node) (\<lambda>isBag.
               if isBag
               then bindE (getProp node ''expression'') (\<lambda>ex.
                    bindE (getProp ex ''right'') (\<lambda>r.
                    bindE (getProp r ''properties'') (\<lambda>ps. forEach ps bagProperty scopeFunctions)))
               else Inr scopeFunctions)))"

text \<open>The second \<open>reduce\<close>, over \<open>Object.keys(functions)\<close>: keep the tree of every entry marked
  exported.  \<open>Object.keys\<close> lists own properties only, and \<open>__proto__\<close> is never one of them.\<close>

definition keepExported :: "scope \<Rightarrow> (string \<times> jsval) list" where
  "keepExported functions =
     foldl (\<lambda>exportedFunc (name, fn).
              if exported fn then AList.update name (ast fn) exportedFunc else exportedFunc)
       [] (entries functions)"

definition getExportedFunctions :: "jsval \<Rightarrow> error + (string \<times> jsval) list" where
  "getExportedFunctions moduleAst =
     bindE (getProp moduleAst ''body'') (\<lambda>b.
     bindE (forEach b topLevel emptyScope) (\<lambda>functions.
     Inr (keepExported functions)))"

text \<open>
  \<open>exportedFn[gFunction]\<close>, the lookup both loaders make in the table returned.  The table
  is a plain object too.  For a name it does not hold but every object inherits, the
  value is a function of \<open>Object.prototype\<close> (for \<open>__proto__\<close>, \<open>Object.prototype\<close> itself): it is
  truthy, and it has neither \<open>params\<close> nor \<open>body\<close>, the only fields the loaders go on to read
  from it.  \<open>builtIn\<close>, the object without fields, stands for it.
\<close>

definition builtIn :: jsval where
  "builtIn = Obj []"

definition lookupExported :: "(string \<times> jsval) list \<Rightarrow> string \<Rightarrow> jsval" where
  "lookupExported exportedFn k =
     (case map_of exportedFn k of
        Some v \<Rightarrow> v
      | None \<Rightarrow> if k = ''__proto__'' \<or> k \<in> set objectPrototypeKeys then builtIn else Undefined)"

section \<open>The function renderer: \<open>renderFunction\<close>\<close>

text \<open>
  \<open>escodegen.generate\<close> is a library outside the repository: the renderer takes it as the
  parameter \<open>generate\<close>, which may raise.  The two loaders differ here:
  \<open>js-inline-loader.js\<close> tests for an empty body first, \<open>function-inline-loader.js\<close> does not.
\<close>

definition programFragment :: "jsval \<Rightarrow> jsval" where
  "programFragment stmts =
     Obj [(''type'', Str ''Program''), (''body'', stmts), (''sourceType'', Str ''script'')]"

text \<open>\<open>renderFunction\<close> of \<open>function-inline-loader.js\<close>.\<close>

definition renderFunction_fil :: "(jsval \<Rightarrow> error + string) \<Rightarrow> jsval \<Rightarrow> error + string" where
  "renderFunction_fil generate fnAst =
     bindE (getProp fnAst ''body'') (\<lambda>b.
     bindE (getProp b ''body'') (\<lambda>stmts.
     bindE (getIndex stmts 0) (\<lambda>first.
     bindE (getProp first ''type'') (\<lambda>t.
     if t = Str ''ReturnStatement''
     then bindE (getProp first ''argument'') generate
     else generate (programFragment stmts)))))"

text \<open>\<open>renderFunction\<close> of \<open>js-inline-loader.js\<close>.\<close>

definition renderFunction :: "(jsval \<Rightarrow> error + string) \<Rightarrow> jsval \<Rightarrow> error + string" where
  "renderFunction generate fnAst =
     bindE (getProp fnAst ''body'') (\<lambda>b.
     bindE (getProp b ''body'') (\<lambda>stmts.
     bindE (getLength stmts) (\<lambda>n.
     if n = Num 0 then Inr []
     else bindE (getIndex stmts 0) (\<lambda>first.
          bindE (getProp first ''type'') (\<lambda>t.
          if t = Str ''ReturnStatement''
          then bindE (getProp first ''argument'') generate
          else generate (programFragment stmts))))))"

section \<open>The loader's surroundings\<close>

text \<open>
  What the loaders take from outside the repository: \<open>path.resolve(this.context, .)\<close>, the
  extensions of the webpack options (when set), \<open>fs.readFileSync\<close> (\<open>None\<close> when it throws),
  esprima's parser in the three configurations the code calls it with, and escodegen's
  generator.  \<open>parseModule\<close> is \<open>esprima.parse(contents, {sourceType: 'module'})\<close>; it is
  handed whatever \<open>loadModuleContents\<close> returned, \<open>null\<close> included.  \<open>parseRanged\<close> is the
  parse of the host source, with \<open>range: true\<close>; \<open>parseScript\<close> the parse with no options.
\<close>

record loader =
  resolvePath :: "string \<Rightarrow> string"
  extensions :: "string list option"
  readFileSync :: "string \<Rightarrow> string option"
  parseModule :: "string option \<Rightarrow> error + jsval"
  parseRanged :: "string \<Rightarrow> error + jsval"
  parseScript :: "string \<Rightarrow> error + jsval"
  generate :: "jsval \<Rightarrow> error + string"

text \<open>What a loader does to its context: \<open>this.cacheable()\<close>, \<open>this.emitError(msg)\<close>,
  \<open>this.addDependency(file)\<close>, and \<open>console.log\<close>.\<close>

record effects =
  cacheable :: bool
  errors :: "string list"
  dependencies :: "string list"
  logged :: "string list"

definition emitError :: "string \<Rightarrow> effects \<Rightarrow> effects" where
  "emitError msg fx = fx\<lparr>errors := errors fx @ [msg]\<rparr>"

definition addDependency :: "string \<Rightarrow> effects \<Rightarrow> effects" where
  "addDependency file fx = fx\<lparr>dependencies := dependencies fx @ [file]\<rparr>"

text \<open>\<open>e.toString()\<close> of a caught error.\<close>

fun errorText :: "error \<Rightarrow> string" where
  "errorText (SyntaxError msg) = msg"
| "errorText TypeError = ''TypeError''"
| "errorText SharedWrite = ''Error''"

text \<open>\<open>loadModuleContents\<close>: the first extension under which the file can be read wins.\<close>

definition loadModuleContents :: "loader \<Rightarrow> string \<Rightarrow> string option" where
  "loadModuleContents L modulePath =
     foldl (\<lambda>payload ext.
              case payload of
                Some p \<Rightarrow> Some p
              | None \<Rightarrow> readFileSync L (modulePath @ ext))
       None
       (case extensions L of Some exts \<Rightarrow> exts | None \<Rightarrow> ['''', ''.js''])"

text \<open>\<open>compileArgumentAst\<close>: the argument text is parsed as the arguments of a call.\<close>

definition compileArgumentAst :: "loader \<Rightarrow> string \<Rightarrow> error + jsval" where
  "compileArgumentAst L argsExpression =
     bindE (parseScript L (''X('' @ argsExpression @ '')'')) (\<lambda>tree.
     bindE (getProp tree ''body'') (\<lambda>b.
     bindE (getIndex b 0) (\<lambda>s.
     bindE (getProp s ''expression'') (\<lambda>e.
     getProp e ''arguments''))))"

text \<open>
  The loop \<open>for (var i=0; i<fnArgs.length; ++i) fnAst = replaceIdentifier(fnAst.params[i].name,
  fnArgs[i], fnAst)\<close> of both loaders.  Each round reads \<open>params\<close> from the tree the round
  before returned.
\<close>

definition replaceArgument :: "jsval \<Rightarrow> jsval \<Rightarrow> nat \<Rightarrow> error + jsval" where
  "replaceArgument fnArgs fnAst i =
     bindE (getProp fnAst ''params'') (\<lambda>ps.
     bindE (getIndex ps i) (\<lambda>p.
     bindE (getProp p ''name'') (\<lambda>name.
     bindE (getIndex fnArgs i) (\<lambda>arg.
     replaceIdentifier name arg fnAst))))"

fun replaceArgumentsFrom :: "jsval \<Rightarrow> nat \<Rightarrow> nat \<Rightarrow> jsval \<Rightarrow> error + jsval" where
  "replaceArgumentsFrom fnArgs i 0 fnAst = Inr fnAst"
| "replaceArgumentsFrom fnArgs i (Suc k) fnAst =
     bindE (replaceArgument fnArgs fnAst i) (replaceArgumentsFrom fnArgs (Suc i) k)"

definition replaceArguments :: "jsval \<Rightarrow> jsval \<Rightarrow> error + jsval" where
  "replaceArguments fnArgs fnAst =
     bindE (getLength fnArgs) (\<lambda>n.
     replaceArgumentsFrom fnArgs 0 (case n of Num k \<Rightarrow> nat k | _ \<Rightarrow> 0) fnAst)"

section \<open>The iterative driver: \<open>js-inline-loader.js\<close>\<close>

text \<open>
  \<open>getFunctionCode\<close>.  \<open>path.resolve\<close> raises on a module reference that is not a string.
  A module that cannot be read, a module that does not parse and a function the module
  does not export each give a diagnostic and a comment in place of the code (unless the
  function name is one every object inherits); the number of arguments is not compared
  with the number of parameters.
\<close>

definition getFunctionCode ::
  "loader \<Rightarrow> effects \<Rightarrow> jsval \<Rightarrow> jsval \<Rightarrow> jsval \<Rightarrow> error + string \<times> effects" where
  "getFunctionCode L fx gModule gFunction fnArgs =
     (case gModule of
        Str m \<Rightarrow>
          (let filePath = resolvePath L m in
           case loadModuleContents L filePath of
             None \<Rightarrow>
               Inr (''/* Missing module '' @ m @ '' */'',
                    emitError (''Could not find module `'' @ m @ ''`'') fx)
           | Some contents \<Rightarrow>
               (case parseModule L (Some contents) of
                  Inl e \<Rightarrow>
                    Inr (''/* Parsing error in module '' @ m @ '' */'',
                         emitError (''%inline('' @ [CHR 0x22] @ m @ [CHR 0x22] @ ''): '' @ errorText e) fx)
                | Inr tree \<Rightarrow>
                    (let fx = addDependency filePath fx in
                     bindE (getExportedFunctions tree) (\<lambda>exportedFn.
                     let fnAst = lookupExported exportedFn (toStringJS gFunction) in
                     if \<not> truthy fnAst
                     then Inr (''/* Unknown inline '' @ toStringJS gFunction @ '' */'',
                               emitError (''%inline('' @ [CHR 0x22] @ m @ [CHR 0x22] @ ''): Undefined function `'' @
                                          toStringJS gFunction) fx)
                     else bindE (replaceArguments fnArgs fnAst) (\<lambda>fnAst.
                          bindE (renderFunction (generate L) fnAst) (\<lambda>code.
                          Inr (code, fx)))))))
      | _ \<Rightarrow> Inl TypeError)"

text \<open>\<open>findInlineToken\<close>: the first call of the marker function, in \<open>Object.keys\<close> order.
  \<open>findInValue\<close> is the body of the loop over the keys for one field value, \<open>findInElements\<close>
  the inner loop over an array (\<open>typeof value[j] === 'object'\<close> holds for objects, arrays and
  \<open>null\<close>), \<open>findInValues\<close> the loop over the keys when the node itself is an array.\<close>

definition inlineToken :: string where
  "inlineToken = ''___js_inline_loader_inline''"

definition isInlineCall :: "(string \<times> jsval) list \<Rightarrow> error + bool" where
  "isInlineCall kvs =
     (if field kvs ''type'' = Str ''CallExpression''
      then bindE (getProp (field kvs ''callee'') ''name'') (\<lambda>n. Inr (n = Str inlineToken))
      else Inr False)"

fun findInlineToken :: "jsval \<Rightarrow> error + jsval option"
  and findInValue :: "jsval \<Rightarrow> error + jsval option"
  and findInElements :: "jsval list \<Rightarrow> error + jsval option"
  and findInFields :: "(string \<times> jsval) list \<Rightarrow> error + jsval option"
  and findInValues :: "jsval list \<Rightarrow> error + jsval option"
where
  "findInlineToken Undefined = Inl TypeError"
| "findInlineToken Null = Inl TypeError"
| "findInlineToken (Bool b) = Inr None"
| "findInlineToken (Num n) = Inr None"
| "findInlineToken (Str s) = Inr None"
| "findInlineToken (Arr xs) = findInValues xs"
| "findInlineToken (Obj kvs) =
     (case isInlineCall kvs of
        Inl e \<Rightarrow> Inl e
      | Inr True \<Rightarrow> Inr (Some (Obj kvs))
      | Inr False \<Rightarrow> findInFields kvs)"
| "findInValue (Arr xs) = findInElements xs"
| "findInValue (Obj kvs) = findInlineToken (Obj kvs)"
| "findInValue v = Inr None"
| "findInElements [] = Inr None"
| "findInElements (x # xs) =
     (case (case x of
              Obj kvs \<Rightarrow> findInlineToken x
            | Arr ys \<Rightarrow> findInlineToken x
            | Null \<Rightarrow> findInlineToken x
            | _ \<Rightarrow> Inr None) of
        Inl e \<Rightarrow> Inl e
      | Inr (Some t) \<Rightarrow> Inr (Some t)
      | Inr None \<Rightarrow> findInElements xs)"
| "findInFields [] = Inr None"
| "findInFields ((k, v) # kvs) =
     (case findInValue v of
        Inl e \<Rightarrow> Inl e
      | Inr (Some t) \<Rightarrow> Inr (Some t)
      | Inr None \<Rightarrow> findInFields kvs)"
| "findInValues [] = Inr None"
| "findInValues (x # xs) =
     (case findInValue x of
        Inl e \<Rightarrow> Inl e
      | Inr (Some t) \<Rightarrow> Inr (Some t)
      | Inr None \<Rightarrow> findInValues xs)"

text \<open>\<open>source.substring(0, e)\<close> and \<open>source.substring(b)\<close>: the index is made an integer and
  clamped to the text.  A range holds numbers; the coercion of strings and objects to
  numbers is not modelled.\<close>

fun toInteger :: "jsval \<Rightarrow> int" where
  "toInteger (Num n) = n"
| "toInteger (Bool b) = (if b then 1 else 0)"
| "toInteger v = 0"

definition clampIndex :: "string \<Rightarrow> jsval \<Rightarrow> nat" where
  "clampIndex s v = nat (max 0 (min (toInteger v) (int (length s))))"

definition substringTo :: "string \<Rightarrow> jsval \<Rightarrow> string" where
  "substringTo s e = (if e = Undefined then s else take (clampIndex s e) s)"

definition substringFrom :: "string \<Rightarrow> jsval \<Rightarrow> string" where
  "substringFrom s b = drop (clampIndex s b) s"

text \<open>\<open>token.arguments.slice(2)\<close>.\<close>

fun slice2 :: "jsval \<Rightarrow> error + jsval" where
  "slice2 (Arr xs) = Inr (Arr (drop 2 xs))"
| "slice2 (Str s) = Inr (Str (drop 2 s))"
| "slice2 v = Inl TypeError"

text \<open>One round of the loop of \<open>replaceInlineFunc\<close> after the token is found: the call of the
  callback and the splice.\<close>

definition expandToken :: "loader \<Rightarrow> effects \<Rightarrow> string \<Rightarrow> jsval \<Rightarrow> error + string \<times> effects" where
  "expandToken L fx source token =
     bindE (getProp token ''arguments'') (\<lambda>args.
     bindE (getIndex args 0) (\<lambda>a0.
     bindE (getProp a0 ''value'') (\<lambda>gModule.
     bindE (getIndex args 1) (\<lambda>a1.
     bindE (getProp a1 ''name'') (\<lambda>gFunction.
     bindE (slice2 args) (\<lambda>fnArgs.
     bindE (getFunctionCode L fx gModule gFunction fnArgs) (\<lambda>(replacement, fx).
     bindE (getProp token ''range'') (\<lambda>range.
     bindE (getIndex range 0) (\<lambda>r0.
     bindE (getIndex range 1) (\<lambda>r1.
     Inr (substringTo source r0 @ replacement @ substringFrom source r1, fx)))))))))))"

text \<open>\<open>replaceInlineFunc\<close> is \<open>while (true) { ... }\<close>: it returns when the text fails to parse
  or holds no token, and need not return at all (\<open>None\<close>) when every replacement brings a
  new token.\<close>

partial_function (option) replaceInlineFunc ::
  "loader \<Rightarrow> effects \<Rightarrow> string \<Rightarrow> (error + string \<times> effects) option" where
  "replaceInlineFunc L fx source =
     (case parseRanged L source of
        Inl e \<Rightarrow>
          Some (Inr (source,
            emitError (''Inline processing failed: SyntaxError: '' @ errorText e) fx))
      | Inr tree \<Rightarrow>
          (case findInlineToken tree of
             Inl e \<Rightarrow> Some (Inl e)
           | Inr None \<Rightarrow> Some (Inr (source, fx))
           | Inr (Some token) \<Rightarrow>
               (case expandToken L fx source token of
                  Inl e \<Rightarrow> Some (Inl e)
                | Inr (source', fx') \<Rightarrow> replaceInlineFunc L fx' source')))"

text \<open>
  The pattern \<open>MACRO\<close>,
  \<^verbatim>\<open>/%inline\s*\(\s*["'](.*?)['"]\s*\)\s*\.\s*(\w+)\s*\((\s*\))?/g\<close>, as \<open>String.replace\<close>
  applies it.  Text is a list of 8-bit characters: of the characters \<open>\s\<close> matches these are
  tab, line feed, vertical tab, form feed, carriage return, space and the no-break space
  U+00A0; of the line terminators, which \<open>.\<close> does not match, line feed and carriage
  return; \<open>\w\<close> is a letter, a digit or the underscore of ASCII.  \<open>macroTail\<close> matches from the closing quote on (the greedy \<open>\s*\<close> and
  \<open>\w+\<close> have no shorter match that could succeed), \<open>macroModule\<close> is the lazy \<open>(.*?)\<close> and
  \<open>macroAt\<close> the whole pattern at the head of the text.
\<close>

definition isSpace :: "char \<Rightarrow> bool" where
  "isSpace c \<longleftrightarrow> of_char c \<in> {9, 10, 11, 12, 13, 32, 160 :: nat}"

definition isWord :: "char \<Rightarrow> bool" where
  "isWord c \<longleftrightarrow>
     (let n = (of_char c :: nat) in
      (48 \<le> n \<and> n \<le> 57) \<or> (65 \<le> n \<and> n \<le> 90) \<or> (97 \<le> n \<and> n \<le> 122) \<or> n = 95)"

definition isLineTerminator :: "char \<Rightarrow> bool" where
  "isLineTerminator c \<longleftrightarrow> of_char c \<in> {10, 13 :: nat}"

definition isQuote :: "char \<Rightarrow> bool" where
  "isQuote c \<longleftrightarrow> of_char c \<in> {34, 39 :: nat}"

fun expectChar :: "(char \<Rightarrow> bool) \<Rightarrow> string \<Rightarrow> string option" where
  "expectChar P [] = None"
| "expectChar P (c # r) = (if P c then Some r else None)"

definition expectText :: "string \<Rightarrow> string \<Rightarrow> string option" where
  "expectText lit s = (if take (length lit) s = lit then Some (drop (length lit) s) else None)"

definition macroTail :: "string \<Rightarrow> (string \<times> bool \<times> string) option" where
  "macroTail s =
     do {
       r \<leftarrow> expectChar isQuote s;
       r \<leftarrow> expectChar (\<lambda>c. c = CHR '')'') (dropWhile isSpace r);
       r \<leftarrow> expectChar (\<lambda>c. c = CHR ''.'') (dropWhile isSpace r);
       let r = dropWhile isSpace r;
       let gFunction = takeWhile isWord r;
       r \<leftarrow> (if gFunction = [] then None else Some (dropWhile isWord r));
       r \<leftarrow> expectChar (\<lambda>c. c = CHR ''('') (dropWhile isSpace r);
       (case expectChar (\<lambda>c. c = CHR '')'') (dropWhile isSpace r) of
          Some r' \<Rightarrow> Some (gFunction, True, r')
        | None \<Rightarrow> Some (gFunction, False, r))
     }"

fun macroModule :: "string \<Rightarrow> string \<Rightarrow> (string \<times> string \<times> bool \<times> string) option" where
  "macroModule acc s =
     (case macroTail s of
        Some (gFunction, gEmpty, rest) \<Rightarrow> Some (rev acc, gFunction, gEmpty, rest)
      | None \<Rightarrow>
          (case s of
             [] \<Rightarrow> None
           | c # r \<Rightarrow> if isLineTerminator c then None else macroModule (c # acc) r))"

definition macroAt :: "string \<Rightarrow> (string \<times> string \<times> bool \<times> string) option" where
  "macroAt s =
     do {
       r \<leftarrow> expectText ''%inline'' s;
       r \<leftarrow> expectChar (\<lambda>c. c = CHR ''('') (dropWhile isSpace r);
       r \<leftarrow> expectChar isQuote (dropWhile isSpace r);
       macroModule [] r
     }"

text \<open>The replacement the callback of \<open>source.replace(MACRO, ...)\<close> returns.\<close>

definition macroCall :: "string \<Rightarrow> string \<Rightarrow> bool \<Rightarrow> string" where
  "macroCall gModule gFunction gEmpty =
     ''___js_inline_loader_inline('' @ [CHR 0x27] @ gModule @ [CHR 0x27] @ '','' @ gFunction @
     (if gEmpty then '')'' else '','')"


text \<open>A match is never empty, so the scan for the next match ends.\<close>

lemma expectChar_length: "expectChar P s = Some r \<Longrightarrow> length r < length s"
  by (cases s) (auto split: if_splits)

lemma expectChar_dropWhile_length:
  "expectChar P (dropWhile Q s) = Some r \<Longrightarrow> length r < length s"
  using expectChar_length [of P "dropWhile Q s" r] length_dropWhile_le [of Q s] by simp

lemma macroTail_length:
  assumes "macroTail s = Some (f, e, rest)"
  shows "length rest < length s"
proof -
  from assms obtain r1 r2 r3 r5 where
    1: "expectChar isQuote s = Some r1" and
    2: "expectChar (\<lambda>c. c = CHR '')'') (dropWhile isSpace r1) = Some r2" and
    3: "expectChar (\<lambda>c. c = CHR ''.'') (dropWhile isSpace r2) = Some r3" and
    5: "expectChar (\<lambda>c. c = CHR ''('')
          (dropWhile isSpace (dropWhile isWord (dropWhile isSpace r3))) = Some r5" and
    6: "(case expectChar (\<lambda>c. c = CHR '')'') (dropWhile isSpace r5) of
          Some r' \<Rightarrow> Some (takeWhile isWord (dropWhile isSpace r3), True, r')
        | None \<Rightarrow> Some (takeWhile isWord (dropWhile isSpace r3), False, r5)) = Some (f, e, rest)"
    by (auto simp: macroTail_def Let_def split: bind_splits if_splits)
  have "length r5 \<le> length r3"
    using expectChar_dropWhile_length [OF 5]
      length_dropWhile_le [of isWord "dropWhile isSpace r3"] length_dropWhile_le [of isSpace r3]
    by simp
  moreover have "length rest \<le> length r5"
    using 6 by (auto split: option.splits dest!: expectChar_dropWhile_length)
  ultimately show ?thesis
    using expectChar_length [OF 1] expectChar_dropWhile_length [OF 2]
      expectChar_dropWhile_length [OF 3] by simp
qed

lemma macroModule_length:
  "macroModule acc s = Some (m, f, e, rest) \<Longrightarrow> length rest < length s"
proof (induction acc s rule: macroModule.induct)
  case (1 acc s)
  show ?case
  proof (cases "macroTail s")
    case (Some t)
    with "1.prems" show ?thesis
      by (cases t) (auto dest: macroTail_length)
  next
    case None
    with "1.prems" obtain c r where s: "s = c # r" and nl: "\<not> isLineTerminator c"
      and m: "macroModule (c # acc) r = Some (m, f, e, rest)"
      by (cases s) (auto split: if_splits)
    from "1.IH" [OF None s nl m] s show ?thesis by simp
  qed
qed

lemma macroAt_length:
  assumes "macroAt s = Some (m, f, e, rest)"
  shows "length rest < length s"
proof -
  from assms obtain r1 r2 r3 where
    1: "expectText ''%inline'' s = Some r1" and
    2: "expectChar (\<lambda>c. c = CHR ''('') (dropWhile isSpace r1) = Some r2" and
    3: "expectChar isQuote (dropWhile isSpace r2) = Some r3" and
    4: "macroModule [] r3 = Some (m, f, e, rest)"
    by (auto simp: macroAt_def split: bind_splits)
  from 1 have "length r1 \<le> length s" by (auto simp: expectText_def split: if_splits)
  with expectChar_dropWhile_length [OF 2] expectChar_dropWhile_length [OF 3]
    macroModule_length [OF 4] show ?thesis by simp
qed

text \<open>\<open>source.replace(MACRO, ...)\<close>: the rewritten text, and \<open>hasMacros\<close>.\<close>

function normalise :: "string \<Rightarrow> string \<times> bool" where
  "normalise [] = ([], False)"
| "normalise (c # r) =
     (case macroAt (c # r) of
        Some (gModule, gFunction, gEmpty, rest) \<Rightarrow>
          (case normalise rest of
             (out, hasMacros) \<Rightarrow> (macroCall gModule gFunction gEmpty @ out, True))
      | None \<Rightarrow>
          (case normalise r of (out, hasMacros) \<Rightarrow> (c # out, hasMacros)))"
  by pat_completeness auto
termination
  by (relation "measure length") (auto dest: macroAt_length)

text \<open>\<open>module.exports\<close> of \<open>js-inline-loader.js\<close>.\<close>

definition jsInlineLoader :: "loader \<Rightarrow> effects \<Rightarrow> string \<Rightarrow> (error + string \<times> effects) option" where
  "jsInlineLoader L fx source =
     (let fx = fx\<lparr>cacheable := True\<rparr>;
          (normSource, hasMacros) = normalise source
      in if \<not> hasMacros then Some (Inr (source, fx))
         else replaceInlineFunc L fx normSource)"

section \<open>The single-sweep driver: \<open>function-inline-loader.js\<close>\<close>

text \<open>
  A match of \<open>INLINE_MACRO\<close> with its five groups.  The matching itself is left to the
  regular-expression engine: \<open>functionInlineLoader\<close> takes the split of the source into
  matches and the text between them as a parameter.
\<close>

record site =
  gIndent :: string
  gAssignExpr :: "string option"
  gFile :: string
  gFunction :: string
  gArgs :: string

datatype segment = Text string | Macro site

text \<open>\<open>code.replace(/\r?\n/g, '\n' + pad)\<close>.  (\<open>gIndent\<close> holds tabs and spaces only, so the
  replacement string has no \<open>$\<close> pattern.)\<close>

fun reindent :: "string \<Rightarrow> string \<Rightarrow> string" where
  "reindent pad [] = []"
| "reindent pad [c] = (if c = CHR 0x0A then CHR 0x0A # pad else [c])"
| "reindent pad (c # d # r) =
     (if c = CHR 0x0D \<and> d = CHR 0x0A then CHR 0x0A # pad @ reindent pad r
      else if c = CHR 0x0A then CHR 0x0A # pad @ reindent pad (d # r)
      else c # reindent pad (d # r))"

text \<open>The callback of \<open>source.replace(INLINE_MACRO, ...)\<close>.  Nothing here catches what the
  parser or the resolver raise.\<close>

definition inlineMacro ::
  "loader \<Rightarrow> effects \<Rightarrow> site \<Rightarrow> error + string \<times> effects" where
  "inlineMacro L fx m =
     (let filePath = resolvePath L (gFile m) in
      bindE (parseModule L (loadModuleContents L filePath)) (\<lambda>tree.
      let fx = addDependency filePath fx in
      bindE (getExportedFunctions tree) (\<lambda>exportedFn.
      let fnAst = lookupExported exportedFn (gFunction m) in
      if \<not> truthy fnAst
      then Inr (''/* Unknown inline '' @ gFunction m @ '' */'',
                emitError (''Trying to inline unknown function '' @ gFunction m @
                           '' in module '' @ gFile m) fx)
      else bindE (compileArgumentAst L (gArgs m)) (\<lambda>fnArgs.
           bindE (getLength fnArgs) (\<lambda>n.
           bindE (getProp fnAst ''params'') (\<lambda>ps.
           bindE (getLength ps) (\<lambda>np.
           if \<not> strictEq n np
           then Inr (''/* Invalid syntax for '' @ gFunction m @ '' */'',
                     emitError (''Function '' @ gFunction m @ '' is expecting exactly '' @
                                toStringJS np @ '' arguments, but got '' @ toStringJS n) fx)
           else bindE (replaceArguments fnArgs fnAst) (\<lambda>fnAst.
                bindE (renderFunction_fil (generate L) fnAst) (\<lambda>code.
                let code =
                      (if (case gAssignExpr m of Some a \<Rightarrow> a \<noteq> [] | None \<Rightarrow> False)
                       then gIndent m @ the (gAssignExpr m) @
                            reindent (gIndent m @ ''    '') code
                       else gIndent m @ reindent (gIndent m) code)
                in Inr (code, fx\<lparr>logged := logged fx @ [code]\<rparr>))))))))))"

text \<open>\<open>source.replace\<close> calls the callback match by match, left to right.\<close>

fun sweep :: "loader \<Rightarrow> segment list \<Rightarrow> string \<times> effects \<Rightarrow> error + string \<times> effects" where
  "sweep L [] acc = Inr acc"
| "sweep L (Text t # segs) (out, fx) = sweep L segs (out @ t, fx)"
| "sweep L (Macro m # segs) (out, fx) =
     bindE (inlineMacro L fx m) (\<lambda>(code, fx'). sweep L segs (out @ code, fx'))"

definition functionInlineLoader ::
  "loader \<Rightarrow> (string \<Rightarrow> segment list) \<Rightarrow> effects \<Rightarrow> string \<Rightarrow> error + string \<times> effects" where
  "functionInlineLoader L inlineMacros fx source =
     sweep L (inlineMacros source) ([], fx\<lparr>cacheable := True\<rparr>)"

section \<open>\<open>replaceIdentifier\<close> on a heap of objects\<close>

text \<open>
  Whether \<open>replaceIdentifier\<close> changes the trees it is given cannot be read off a function
  on values, so the same code is modelled once more on a store.  A value is a primitive or
  a reference; the heap is the list of the cells allocated so far, a reference being an
  index into it (a reference beyond the heap does not arise; it reads as an empty
  object).  The code allocates an object (\<open>{}\<close>, the seed of \<open>reduce\<close>) and an array (the
  result of \<open>map\<close>), and writes with \<open>newAst[key] = ...\<close> and, inside \<open>map\<close>, by storing the
  next element.  The recursion may go on for ever on a cyclic structure: \<open>fuel\<close> bounds
  its depth, and running out of it is the outcome \<open>OutOfFuel\<close>.
\<close>

datatype hval = HUndefined | HNull | HBool bool | HNum int | HStr string | HRef nat

datatype cell = HObject "(string \<times> hval) list" | HArray "hval list"

type_synonym heap = "cell list"

datatype 'a outcome = Returns 'a | Raises error | OutOfFuel

text \<open>Reading the heap: the cell of a reference, the own enumerable fields of a value in
  \<open>Object.keys\<close> order, \<open>o[k]\<close>, \<open>v.k\<close>, truthiness, and the elements of an array
  (\<open>Array.isArray(v)\<close> holds when there are any to speak of).\<close>

definition cellAt :: "heap \<Rightarrow> nat \<Rightarrow> cell" where
  "cellAt h a = (if a < length h then h ! a else HObject [])"

fun ownFields :: "heap \<Rightarrow> hval \<Rightarrow> (string \<times> hval) list" where
  "ownFields h (HRef a) =
     (case cellAt h a of
        HObject fs \<Rightarrow> fs
      | HArray vs \<Rightarrow> zip (indexKeys (length vs)) vs)"
| "ownFields h (HStr s) = zip (indexKeys (length s)) (map (\<lambda>c. HStr [c]) s)"
| "ownFields h v = []"

definition fieldH :: "(string \<times> hval) list \<Rightarrow> string \<Rightarrow> hval" where
  "fieldH fs k = (case map_of fs k of None \<Rightarrow> HUndefined | Some v \<Rightarrow> v)"

fun getPropH :: "heap \<Rightarrow> hval \<Rightarrow> string \<Rightarrow> error + hval" where
  "getPropH h HUndefined k = Inl TypeError"
| "getPropH h HNull k = Inl TypeError"
| "getPropH h (HRef a) k =
     Inr (case cellAt h a of HObject fs \<Rightarrow> fieldH fs k | HArray vs \<Rightarrow> HUndefined)"
| "getPropH h v k = Inr HUndefined"

fun truthyH :: "hval \<Rightarrow> bool" where
  "truthyH HUndefined = False"
| "truthyH HNull = False"
| "truthyH (HBool b) = b"
| "truthyH (HNum n) = (n \<noteq> 0)"
| "truthyH (HStr s) = (s \<noteq> [])"
| "truthyH (HRef a) = True"

fun elementsH :: "heap \<Rightarrow> hval \<Rightarrow> hval list option" where
  "elementsH h (HRef a) = (case cellAt h a of HArray vs \<Rightarrow> Some vs | HObject fs \<Rightarrow> None)"
| "elementsH h v = None"

text \<open>The scan for a shadowing declaration, as on values; \<open>===\<close> on two references is
  identity.\<close>

fun foldH :: "('s \<Rightarrow> hval \<Rightarrow> error + 's) \<Rightarrow> hval list \<Rightarrow> 's \<Rightarrow> error + 's" where
  "foldH f [] s = Inr s"
| "foldH f (x # xs) s = bindE (f s x) (foldH f xs)"

definition forEachH :: "heap \<Rightarrow> hval \<Rightarrow> ('s \<Rightarrow> hval \<Rightarrow> error + 's) \<Rightarrow> 's \<Rightarrow> error + 's" where
  "forEachH h v f s = (case elementsH h v of Some xs \<Rightarrow> foldH f xs s | None \<Rightarrow> Inl TypeError)"

definition declaresH :: "heap \<Rightarrow> hval \<Rightarrow> bool \<Rightarrow> hval \<Rightarrow> error + bool" where
  "declaresH h name isShadowed d =
     bindE (getPropH h d ''id'') (\<lambda>i.
     bindE (getPropH h i ''name'') (\<lambda>n. Inr (isShadowed \<or> n = name)))"

definition stmtShadowsH :: "heap \<Rightarrow> hval \<Rightarrow> bool \<Rightarrow> hval \<Rightarrow> error + bool" where
  "stmtShadowsH h name isShadowed node =
     bindE (getPropH h node ''type'') (\<lambda>t.
     bindE (if t = HStr ''VariableDeclaration''
            then bindE (getPropH h node ''declarations'') (\<lambda>ds. forEachH h ds (declaresH h name) isShadowed)
            else Inr isShadowed) (\<lambda>isShadowed.
     if t = HStr ''ForStatement''
     then bindE (getPropH h node ''init'') (\<lambda>i.
          if truthyH i
          then bindE (getPropH h i ''type'') (\<lambda>it.
               if it = HStr ''VariableDeclaration''
               then bindE (getPropH h i ''declarations'') (\<lambda>ds. forEachH h ds (declaresH h name) isShadowed)
               else Inr isShadowed)
          else Inr isShadowed)
     else Inr isShadowed))"

definition shadowedAtH :: "heap \<Rightarrow> hval \<Rightarrow> hval \<Rightarrow> error + bool" where
  "shadowedAtH h name inAst =
     bindE (getPropH h inAst ''body'') (\<lambda>b.
     case elementsH h b of
       Some stmts \<Rightarrow> foldH (stmtShadowsH h name) stmts False
     | None \<Rightarrow> Inr False)"

definition isIdentifierH :: "heap \<Rightarrow> hval \<Rightarrow> hval \<Rightarrow> error + bool" where
  "isIdentifierH h name inAst =
     bindE (getPropH h inAst ''type'') (\<lambda>t.
     bindE (getPropH h inAst ''name'') (\<lambda>n.
     Inr (t = HStr ''Identifier'' \<and> n = name)))"

text \<open>The two writes: \<open>newAst[key] = v\<close> and the store of the next element of the array
  \<open>map\<close> builds.\<close>

definition setField :: "nat \<Rightarrow> string \<Rightarrow> hval \<Rightarrow> heap \<Rightarrow> heap" where
  "setField a k v h =
     (case cellAt h a of
        HObject fs \<Rightarrow> h[a := HObject (AList.update k v fs)]
      | HArray vs \<Rightarrow> h)"

definition pushElement :: "nat \<Rightarrow> hval \<Rightarrow> heap \<Rightarrow> heap" where
  "pushElement a v h =
     (case cellAt h a of
        HArray vs \<Rightarrow> h[a := HArray (vs @ [v])]
      | HObject fs \<Rightarrow> h)"

text \<open>Sequencing: a step that raises or runs out of fuel ends the computation, with the
  heap as it is then.\<close>

definition bindO ::
  "'a outcome \<times> heap \<Rightarrow> ('a \<Rightarrow> heap \<Rightarrow> 'b outcome \<times> heap) \<Rightarrow> 'b outcome \<times> heap" where
  "bindO m f =
     (case m of
        (Returns x, h) \<Rightarrow> f x h
      | (Raises e, h) \<Rightarrow> (Raises e, h)
      | (OutOfFuel, h) \<Rightarrow> (OutOfFuel, h))"

text \<open>
  The loops take the recursive call as the parameter \<open>self\<close>.  \<open>mapElementsH\<close> is
  \<open>value.map(replaceIdentifier.bind({}, name, withAst))\<close> from element \<open>i\<close> on, \<open>k\<close> elements
  to go, storing into the array at \<open>new\<close>; each element is read from the heap when its
  turn comes.  \<open>replaceValueH\<close> is the body of the \<open>reduce\<close> callback for one field value,
  \<open>reduceKeysH\<close> the \<open>reduce\<close> over the keys, which were listed before the loop; the value
  of a key is read from the heap when its turn comes.
\<close>

definition elementAt :: "heap \<Rightarrow> hval \<Rightarrow> nat \<Rightarrow> hval" where
  "elementAt h v i =
     (case elementsH h v of
        Some xs \<Rightarrow> if i < length xs then xs ! i else HUndefined
      | None \<Rightarrow> HUndefined)"

fun mapElementsH ::
  "(hval \<Rightarrow> heap \<Rightarrow> hval outcome \<times> heap) \<Rightarrow> hval \<Rightarrow> nat \<Rightarrow> nat \<Rightarrow> nat \<Rightarrow> heap \<Rightarrow>
     unit outcome \<times> heap" where
  "mapElementsH self src i 0 new h = (Returns (), h)"
| "mapElementsH self src i (Suc k) new h =
     bindO (self (elementAt h src i) h) (\<lambda>y h.
     mapElementsH self src (Suc i) k new (pushElement new y h))"

definition replaceValueH ::
  "(hval \<Rightarrow> heap \<Rightarrow> hval outcome \<times> heap) \<Rightarrow> hval \<Rightarrow> heap \<Rightarrow> hval outcome \<times> heap" where
  "replaceValueH self v h =
     (case elementsH h v of
        Some xs \<Rightarrow>
          bindO (mapElementsH self v 0 (length xs) (length h) (h @ [HArray []]))
            (\<lambda>u h'. (Returns (HRef (length h)), h'))
      | None \<Rightarrow>
          (case v of
             HRef a \<Rightarrow> self v h
           | _ \<Rightarrow> (Returns v, h)))"

fun reduceKeysH ::
  "(hval \<Rightarrow> heap \<Rightarrow> hval outcome \<times> heap) \<Rightarrow> hval \<Rightarrow> string list \<Rightarrow> nat \<Rightarrow> heap \<Rightarrow>
     unit outcome \<times> heap" where
  "reduceKeysH self inAst [] new h = (Returns (), h)"
| "reduceKeysH self inAst (key # keys) new h =
     bindO (replaceValueH self (fieldH (ownFields h inAst) key) h) (\<lambda>v h.
     reduceKeysH self inAst keys new (setField new key v h))"

primrec replaceIdentifierH ::
  "nat \<Rightarrow> hval \<Rightarrow> hval \<Rightarrow> hval \<Rightarrow> heap \<Rightarrow> hval outcome \<times> heap" where
  "replaceIdentifierH 0 name withAst inAst h = (OutOfFuel, h)"
| "replaceIdentifierH (Suc fuel) name withAst inAst h =
     (case isIdentifierH h name inAst of
        Inl e \<Rightarrow> (Raises e, h)
      | Inr True \<Rightarrow> (Returns withAst, h)
      | Inr False \<Rightarrow>
          (case shadowedAtH h name inAst of
             Inl e \<Rightarrow> (Raises e, h)
           | Inr True \<Rightarrow> (Returns inAst, h)
           | Inr False \<Rightarrow>
               bindO (reduceKeysH (replaceIdentifierH fuel name withAst) inAst
                        (map fst (ownFields h inAst)) (length h) (h @ [HObject []]))
                 (\<lambda>u h'. (Returns (HRef (length h)), h'))))"

section \<open>Vocabulary of the properties\<close>

text \<open>Reading a field without raising: \<open>undefined\<close> for what is not an object.\<close>

fun isObj :: "jsval \<Rightarrow> bool" where
  "isObj (Obj kvs) = True"
| "isObj v = False"

fun fieldOf :: "jsval \<Rightarrow> string \<Rightarrow> jsval" where
  "fieldOf (Obj kvs) k = field kvs k"
| "fieldOf v k = Undefined"

text \<open>A variable declaration that declares \<open>name\<close>, and a \<open>for\<close> statement whose initializer
  is one.\<close>

definition declaredBy :: "string \<Rightarrow> jsval \<Rightarrow> bool" where
  "declaredBy name s \<longleftrightarrow>
     fieldOf s ''type'' = Str ''VariableDeclaration'' \<and>
     (case fieldOf s ''declarations'' of
        Arr ds \<Rightarrow> \<exists>d \<in> set ds. fieldOf (fieldOf d ''id'') ''name'' = Str name
      | _ \<Rightarrow> False)"

definition declaredByFor :: "string \<Rightarrow> jsval \<Rightarrow> bool" where
  "declaredByFor name s \<longleftrightarrow>
     fieldOf s ''type'' = Str ''ForStatement'' \<and> declaredBy name (fieldOf s ''init'')"

text \<open>The statements a parser puts into a statement list: objects; the declarators of a
  variable declaration are objects, each with a pattern object as its \<open>id\<close>.\<close>

definition wfDeclaration :: "jsval \<Rightarrow> bool" where
  "wfDeclaration s \<longleftrightarrow>
     (case fieldOf s ''declarations'' of
        Arr ds \<Rightarrow> \<forall>d \<in> set ds. isObj d \<and> isObj (fieldOf d ''id'')
      | _ \<Rightarrow> False)"

definition wfStatement :: "jsval \<Rightarrow> bool" where
  "wfStatement s \<longleftrightarrow>
     isObj s \<and>
     (fieldOf s ''type'' = Str ''VariableDeclaration'' \<longrightarrow> wfDeclaration s) \<and>
     (fieldOf s ''type'' = Str ''ForStatement'' \<and>
      fieldOf (fieldOf s ''init'') ''type'' = Str ''VariableDeclaration'' \<longrightarrow>
        wfDeclaration (fieldOf s ''init''))"

text \<open>What the final loop of \<open>replaceIdentifier\<close> makes of one field value, in the words of
  the specification: an array is mapped element by element, an object is recursed into,
  a scalar is copied.\<close>

definition fieldSubstituted :: "jsval \<Rightarrow> jsval \<Rightarrow> jsval \<Rightarrow> jsval \<Rightarrow> bool" where
  "fieldSubstituted name withAst v v' \<longleftrightarrow>
     (case v of
        Arr xs \<Rightarrow>
          (case v' of
             Arr ys \<Rightarrow> list_all2 (\<lambda>x y. replaceIdentifier name withAst x = Inr y) xs ys
           | _ \<Rightarrow> False)
      | Obj kvs \<Rightarrow> replaceIdentifier name withAst v = Inr v'
      | _ \<Rightarrow> v' = v)"

text \<open>No statement of the node's own statement list declares \<open>name\<close>.\<close>

definition notShadowedHere :: "string \<Rightarrow> (string \<times> jsval) list \<Rightarrow> bool" where
  "notShadowedHere name kvs \<longleftrightarrow>
     (case field kvs ''body'' of
        Arr stmts \<Rightarrow>
          \<forall>s \<in> set stmts. wfStatement s \<and> \<not> declaredBy name s \<and> \<not> declaredByFor name s
      | _ \<Rightarrow> True)"

text \<open>Substitution with no shadowing test: every identifier node called \<open>name\<close> becomes
  \<open>w\<close>, wherever it stands.  (\<open>null\<close> and \<open>undefined\<close>, where \<open>replaceIdentifier\<close> raises,
  are left as they are.)\<close>

fun substituteAll :: "string \<Rightarrow> jsval \<Rightarrow> jsval \<Rightarrow> jsval"
  and substituteValue :: "string \<Rightarrow> jsval \<Rightarrow> jsval \<Rightarrow> jsval"
  and substituteElements :: "string \<Rightarrow> jsval \<Rightarrow> jsval list \<Rightarrow> jsval list"
  and substituteFields :: "string \<Rightarrow> jsval \<Rightarrow> (string \<times> jsval) list \<Rightarrow> (string \<times> jsval) list"
  and substituteValues :: "string \<Rightarrow> jsval \<Rightarrow> jsval list \<Rightarrow> jsval list"
where
  "substituteAll name w (Obj kvs) =
     (if isIdentifier (Str name) kvs then w else Obj (substituteFields name w kvs))"
| "substituteAll name w (Arr xs) = Obj (zip (indexKeys (length xs)) (substituteValues name w xs))"
| "substituteAll name w (Str s) = Obj (zip (indexKeys (length s)) (map (\<lambda>c. Str [c]) s))"
| "substituteAll name w (Bool b) = Obj []"
| "substituteAll name w (Num n) = Obj []"
| "substituteAll name w v = v"
| "substituteValue name w (Arr xs) = Arr (substituteElements name w xs)"
| "substituteValue name w (Obj kvs) = substituteAll name w (Obj kvs)"
| "substituteValue name w v = v"
| "substituteElements name w [] = []"
| "substituteElements name w (x # xs) = substituteAll name w x # substituteElements name w xs"
| "substituteFields name w [] = []"
| "substituteFields name w ((k, v) # kvs) = (k, substituteValue name w v) # substituteFields name w kvs"
| "substituteValues name w [] = []"
| "substituteValues name w (x # xs) = substituteValue name w x # substituteValues name w xs"

text \<open>No statement list anywhere in the tree declares \<open>name\<close>.\<close>

fun noDeclaration :: "string \<Rightarrow> jsval \<Rightarrow> bool"
  and noDeclarationIn :: "string \<Rightarrow> jsval list \<Rightarrow> bool"
  and noDeclarationInFields :: "string \<Rightarrow> (string \<times> jsval) list \<Rightarrow> bool"
where
  "noDeclaration name (Obj kvs) \<longleftrightarrow> notShadowedHere name kvs \<and> noDeclarationInFields name kvs"
| "noDeclaration name (Arr xs) \<longleftrightarrow> noDeclarationIn name xs"
| "noDeclaration name v \<longleftrightarrow> True"
| "noDeclarationIn name [] \<longleftrightarrow> True"
| "noDeclarationIn name (x # xs) \<longleftrightarrow> noDeclaration name x \<and> noDeclarationIn name xs"
| "noDeclarationInFields name [] \<longleftrightarrow> True"
| "noDeclarationInFields name ((k, v) # kvs) \<longleftrightarrow> noDeclaration name v \<and> noDeclarationInFields name kvs"

text \<open>The export table as its callers see it: the tree of every entry marked exported.\<close>

definition exportedView :: "scope \<Rightarrow> string \<Rightarrow> jsval option" where
  "exportedView functions n =
     (case map_of (entries functions) n of
        Some e \<Rightarrow> if exported e then Some (ast e) else None
      | None \<Rightarrow> None)"

text \<open>A table as the walk keeps it: the keys of its own properties are distinct, and
  \<open>__proto__\<close> is not one of them.\<close>

definition properScope :: "scope \<Rightarrow> bool" where
  "properScope s \<longleftrightarrow>
     distinct (map fst (entries s)) \<and> map_of (entries s) ''__proto__'' = None"

text \<open>The diagnostic of a host source that does not parse.\<close>

definition hostFailure :: "error \<Rightarrow> string" where
  "hostFailure e = ''Inline processing failed: SyntaxError: '' @ errorText e"

text \<open>The tree a heap value stands for, read through the cells whose address satisfies
  \<open>A\<close>: a scalar stands for itself, a reference for the object or array in its cell.  The
  keys of an object are distinct, as the keys of a JavaScript object are.\<close>

inductive reprIn :: "(nat \<Rightarrow> bool) \<Rightarrow> heap \<Rightarrow> hval \<Rightarrow> jsval \<Rightarrow> bool"
  for A :: "nat \<Rightarrow> bool" and h :: heap where
  "reprIn A h HUndefined Undefined"
| "reprIn A h HNull Null"
| "reprIn A h (HBool b) (Bool b)"
| "reprIn A h (HNum n) (Num n)"
| "reprIn A h (HStr s) (Str s)"
| "A a \<Longrightarrow> a < length h \<Longrightarrow> h ! a = HObject fs \<Longrightarrow> distinct (map fst fs) \<Longrightarrow>
   map fst fs = map fst kvs \<Longrightarrow>
   list_all2 (reprIn A h) (map snd fs) (map snd kvs) \<Longrightarrow> reprIn A h (HRef a) (Obj kvs)"
| "A a \<Longrightarrow> a < length h \<Longrightarrow> h ! a = HArray vs \<Longrightarrow> list_all2 (reprIn A h) vs ts \<Longrightarrow>
   reprIn A h (HRef a) (Arr ts)"

text \<open>The tree a heap value stands for, whatever cells it is read through.\<close>

definition represents :: "heap \<Rightarrow> hval \<Rightarrow> jsval \<Rightarrow> bool" where
  "represents h v t \<longleftrightarrow> reprIn (\<lambda>a. True) h v t"

text \<open>A loop body or recursive call that leaves every cell below \<open>n\<close> as it is and frees
  none.\<close>

definition keepsBelow :: "nat \<Rightarrow> (hval \<Rightarrow> heap \<Rightarrow> 'a outcome \<times> heap) \<Rightarrow> bool" where
  "keepsBelow n self \<longleftrightarrow>
     (\<forall>v h. n \<le> length h \<longrightarrow>
        length h \<le> length (snd (self v h)) \<and> take n (snd (self v h)) = take n h)"

text \<open>The own enumerable properties of a tree, as \<open>Object.keys\<close> lists them.\<close>

fun ownFieldsP :: "jsval \<Rightarrow> (string \<times> jsval) list" where
  "ownFieldsP (Obj kvs) = kvs"
| "ownFieldsP (Arr ts) = zip (indexKeys (length ts)) ts"
| "ownFieldsP (Str s) = zip (indexKeys (length s)) (map (\<lambda>c. Str [c]) s)"
| "ownFieldsP t = []"

text \<open>A recursive call \<open>self\<close> computes what \<open>replaceIdentifier\<close> computes, on every tree
  of size below \<open>B\<close> that stands on the heap below address \<open>N\<close>; its result may use the cells
  below \<open>N\<close> and the cells the call allocated.\<close>

definition refinesUpTo ::
  "nat \<Rightarrow> string \<Rightarrow> hval \<Rightarrow> jsval \<Rightarrow> nat \<Rightarrow> (hval \<Rightarrow> heap \<Rightarrow> hval outcome \<times> heap) \<Rightarrow> bool" where
  "refinesUpTo N nm w wt B self \<longleftrightarrow>
     (\<forall>t v h. size t < B \<longrightarrow> N \<le> length h \<longrightarrow> reprIn (\<lambda>a. a < N) h v t \<longrightarrow>
        reprIn (\<lambda>a. a < N) h w wt \<longrightarrow>
        (case replaceIdentifier (Str nm) wt t of
           Inl e \<Rightarrow> fst (self v h) = Raises e
         | Inr t' \<Rightarrow>
             (\<exists>v'. fst (self v h) = Returns v' \<and>
                   reprIn (\<lambda>a. a < N \<or> length h \<le> a) (snd (self v h)) v' t')))"

text \<open>A field value whose recursive calls are all on trees of size below \<open>B\<close>.\<close>

definition childrenBelow :: "nat \<Rightarrow> jsval \<Rightarrow> bool" where
  "childrenBelow B tv \<longleftrightarrow>
     (case tv of Arr ts \<Rightarrow> \<forall>x \<in> set ts. size x < B | Obj kvs \<Rightarrow> size tv < B | _ \<Rightarrow> True)"

subsection \<open>Trees used as examples\<close>

text \<open>Nodes as esprima builds them.\<close>

definition mkIdentifier :: "string \<Rightarrow> jsval" where
  "mkIdentifier n = Obj [(''type'', Str ''Identifier''), (''name'', Str n)]"

definition mkLiteral :: "int \<Rightarrow> jsval" where
  "mkLiteral n = Obj [(''type'', Str ''Literal''), (''value'', Num n), (''raw'', Str (showInt n))]"

definition mkBinary :: "string \<Rightarrow> jsval \<Rightarrow> jsval \<Rightarrow> jsval" where
  "mkBinary opr l r =
     Obj [(''type'', Str ''BinaryExpression''), (''operator'', Str opr), (''left'', l), (''right'', r)]"

definition mkReturn :: "jsval \<Rightarrow> jsval" where
  "mkReturn a = Obj [(''type'', Str ''ReturnStatement''), (''argument'', a)]"


definition mkBlock :: "jsval list \<Rightarrow> jsval" where
  "mkBlock stmts = Obj [(''type'', Str ''BlockStatement''), (''body'', Arr stmts)]"


definition aPlus1 :: jsval where
  "aPlus1 = mkBinary ''+'' (mkIdentifier ''a'') (mkLiteral 1)"

definition timesTwo :: jsval where
  "timesTwo = mkReturn (mkBinary ''*'' (mkIdentifier ''x'') (mkLiteral 2))"

definition mkFunction :: "string \<Rightarrow> string \<Rightarrow> jsval list \<Rightarrow> jsval list \<Rightarrow> jsval" where
  "mkFunction t n params stmts =
     Obj [(''type'', Str t), (''id'', if n = [] then Null else mkIdentifier n), (''params'', Arr params),
          (''body'', mkBlock stmts), (''generator'', Bool False), (''expression'', Bool False)]"

definition nestedFunction :: jsval where
  "nestedFunction =
     mkReturn (mkFunction ''FunctionExpression'' [] [mkIdentifier ''x''] [mkReturn (mkIdentifier ''x'')])"

definition mkProgram :: "jsval list \<Rightarrow> jsval" where
  "mkProgram stmts =
     Obj [(''type'', Str ''Program''), (''body'', Arr stmts), (''sourceType'', Str ''module'')]"

definition mkExpressionStatement :: "jsval \<Rightarrow> jsval" where
  "mkExpressionStatement e = Obj [(''type'', Str ''ExpressionStatement''), (''expression'', e)]"

definition mkCall :: "jsval \<Rightarrow> jsval list \<Rightarrow> jsval" where
  "mkCall callee args =
     Obj [(''type'', Str ''CallExpression''), (''callee'', callee), (''arguments'', Arr args)]"

definition mkProperty :: "string \<Rightarrow> jsval \<Rightarrow> jsval" where
  "mkProperty k v =
     Obj [(''type'', Str ''Property''), (''key'', mkIdentifier k), (''computed'', Bool False),
          (''value'', v), (''kind'', Str ''init''), (''method'', Bool False),
          (''shorthand'', Bool False)]"

definition mkModuleExports :: "jsval list \<Rightarrow> jsval" where
  "mkModuleExports props =
     mkExpressionStatement
       (Obj [(''type'', Str ''AssignmentExpression''), (''operator'', Str ''=''),
             (''left'', Obj [(''type'', Str ''MemberExpression''), (''computed'', Bool False),
                            (''object'', mkIdentifier ''module''),
                            (''property'', mkIdentifier ''exports'')]),
             (''right'', Obj [(''type'', Str ''ObjectExpression''), (''properties'', Arr props)])])"

definition emptyFunction :: jsval where
  "emptyFunction = mkFunction ''FunctionDeclaration'' ''f'' [] []"

definition callStatementModule :: jsval where
  "callStatementModule = mkProgram [mkExpressionStatement (mkCall (mkIdentifier ''foo'') [])]"

definition fDecl :: jsval where
  "fDecl = mkFunction ''FunctionDeclaration'' ''f'' [mkIdentifier ''x''] [timesTwo]"

definition reExportModule :: jsval where
  "reExportModule =
     mkProgram
       [mkFunction ''FunctionDeclaration'' ''f'' [mkIdentifier ''x''] [timesTwo],
        mkFunction ''FunctionDeclaration'' ''h'' [] [],
        mkModuleExports [mkProperty ''f'' (mkIdentifier ''f''), mkProperty ''g'' (mkIdentifier ''f'')]]"

definition add3 :: jsval where
  "add3 =
     mkFunction ''FunctionDeclaration'' ''add3''
       [mkIdentifier ''a'', mkIdentifier ''b'', mkIdentifier ''c'']
       [mkReturn (mkBinary ''+'' (mkBinary ''+'' (mkIdentifier ''a'') (mkIdentifier ''b''))
                    (mkIdentifier ''c''))]"

definition add3Module :: jsval where
  "add3Module =
     mkProgram [Obj [(''type'', Str ''ExportNamedDeclaration''), (''declaration'', add3),
                     (''specifiers'', Arr []), (''source'', Null)]]"

definition add3Loader :: "(jsval \<Rightarrow> error + string) \<Rightarrow> loader" where
  "add3Loader g =
     \<lparr>resolvePath = (\<lambda>p. ''/src/'' @ p), extensions = None,
      readFileSync = (\<lambda>p. if p = ''/src/math.js''
                          then Some ''export function add3(a, b, c) { return a + b + c; }''
                          else None),
      parseModule = (\<lambda>c. Inr add3Module),
      parseRanged = (\<lambda>s. Inl (SyntaxError [])),
      parseScript = (\<lambda>s. Inl (SyntaxError [])),
      generate = g\<rparr>"

text \<open>A loader whose parser rejects every text, and a host source with a macro and a syntax
  error.\<close>

definition noEffects :: effects where
  "noEffects = \<lparr>cacheable = False, errors = [], dependencies = [], logged = []\<rparr>"

definition rejectingLoader :: loader where
  "rejectingLoader =
     \<lparr>resolvePath = (\<lambda>p. p), extensions = None, readFileSync = (\<lambda>p. None),
      parseModule = (\<lambda>c. Inl (SyntaxError ''Error: Line 1: Unexpected token'')),
      parseRanged = (\<lambda>s. Inl (SyntaxError ''Error: Line 2: Unexpected token ='')),
      parseScript = (\<lambda>s. Inl (SyntaxError ''Error: Line 1: Unexpected token'')),
      generate = (\<lambda>t. Inr [])\<rparr>"

definition brokenSource :: string where
  "brokenSource = ''var a = %inline('' @ [CHR 0x27] @ ''m'' @ [CHR 0x27] @ '').f(1); var = ;''"

text \<open>The trees of \<open>return x*2;\<close> (at 3) and of \<open>a+1\<close> (at 6) on a heap.\<close>

definition heapTimesTwo :: heap where
  "heapTimesTwo =
     [HObject [(''type'', HStr ''Identifier''), (''name'', HStr ''x'')],
      HObject [(''type'', HStr ''Literal''), (''value'', HNum 2), (''raw'', HStr ''2'')],
      HObject [(''type'', HStr ''BinaryExpression''), (''operator'', HStr ''*''),
               (''left'', HRef 0), (''right'', HRef 1)],
      HObject [(''type'', HStr ''ReturnStatement''), (''argument'', HRef 2)],
      HObject [(''type'', HStr ''Identifier''), (''name'', HStr ''a'')],
      HObject [(''type'', HStr ''Literal''), (''value'', HNum 1), (''raw'', HStr ''1'')],
      HObject [(''type'', HStr ''BinaryExpression''), (''operator'', HStr ''+''),
               (''left'', HRef 4), (''right'', HRef 5)]]"

section \<open>Properties of \<open>replaceIdentifier\<close>\<close>

lemma bindE_simps [simp]:
  "bindE (Inl e) f = Inl e" "bindE (Inr x) f = f x"
  by (simp_all add: bindE_def)

lemma getProp_isObj: "isObj v \<Longrightarrow> getProp v k = Inr (fieldOf v k)"
  by (cases v) simp_all

lemma strictEq_Str [simp]: "strictEq v (Str s) \<longleftrightarrow> v = Str s"
  by (cases v) auto

lemma declares_wf:
  "isObj d \<Longrightarrow> isObj (fieldOf d ''id'') \<Longrightarrow>
   declares (Str name) acc d = Inr (acc \<or> fieldOf (fieldOf d ''id'') ''name'' = Str name)"
  by (simp add: declares_def getProp_isObj)

lemma foldE_declares_wf:
  "\<forall>d \<in> set ds. isObj d \<and> isObj (fieldOf d ''id'') \<Longrightarrow>
   foldE (declares (Str name)) ds acc =
     Inr (acc \<or> (\<exists>d \<in> set ds. fieldOf (fieldOf d ''id'') ''name'' = Str name))"
  by (induction ds arbitrary: acc) (auto simp: declares_wf)

lemma declarations_wf:
  "wfDeclaration s \<Longrightarrow> fieldOf s ''type'' = Str ''VariableDeclaration'' \<Longrightarrow>
   forEach (fieldOf s ''declarations'') (declares (Str name)) acc = Inr (acc \<or> declaredBy name s)"
  by (auto simp: wfDeclaration_def declaredBy_def foldE_declares_wf split: jsval.splits)

lemma fieldOf_Str_isObj: "fieldOf v k = Str t \<Longrightarrow> isObj v"
  by (cases v) simp_all

lemma truthy_isObj: "isObj v \<Longrightarrow> truthy v"
  by (cases v) simp_all

lemma declaredBy_type: "declaredBy name s \<Longrightarrow> fieldOf s ''type'' = Str ''VariableDeclaration''"
  by (simp add: declaredBy_def)

lemma stmtShadows_wf:
  assumes "wfStatement s"
  shows "stmtShadows (Str name) acc s = Inr (acc \<or> declaredBy name s \<or> declaredByFor name s)"
proof -
  from assms have o: "isObj s" by (simp add: wfStatement_def)
  let ?t = "fieldOf s ''type''"
  let ?i = "fieldOf s ''init''"
  have v: "(if ?t = Str ''VariableDeclaration''
            then bindE (getProp s ''declarations'') (\<lambda>ds. forEach ds (declares (Str name)) acc)
            else Inr acc) = Inr (acc \<or> declaredBy name s)"
    using assms o by (auto simp: wfStatement_def getProp_isObj declarations_wf dest: declaredBy_type)
  have f: "(if ?t = Str ''ForStatement''
            then bindE (getProp s ''init'') (\<lambda>i.
                 if truthy i
                 then bindE (getProp i ''type'') (\<lambda>it.
                      if it = Str ''VariableDeclaration''
                      then bindE (getProp i ''declarations'') (\<lambda>ds. forEach ds (declares (Str name)) b)
                      else Inr b)
                 else Inr b)
            else Inr b) = Inr (b \<or> declaredByFor name s)" for b
  proof (cases "?t = Str ''ForStatement''")
    case False
    then show ?thesis by (simp add: declaredByFor_def)
  next
    case True
    show ?thesis
    proof (cases "fieldOf ?i ''type'' = Str ''VariableDeclaration''")
      case v: True
      then have "isObj ?i" by (rule fieldOf_Str_isObj)
      moreover have "wfDeclaration ?i" using assms True v by (simp add: wfStatement_def)
      ultimately show ?thesis using True v o
        by (simp add: getProp_isObj truthy_isObj declarations_wf declaredByFor_def)
    next
      case nv: False
      then have "\<not> declaredBy name ?i" by (auto dest: declaredBy_type)
      moreover have "(if truthy ?i
                 then bindE (getProp ?i ''type'') (\<lambda>it.
                      if it = Str ''VariableDeclaration''
                      then bindE (getProp ?i ''declarations'') (\<lambda>ds. forEach ds (declares (Str name)) b)
                      else Inr b)
                 else Inr b) = Inr b"
        using nv by (cases ?i) auto
      ultimately show ?thesis using True o
        by (simp add: getProp_isObj declaredByFor_def)
    qed
  qed
  show ?thesis
    unfolding stmtShadows_def using o v f by (simp add: getProp_isObj disj_assoc)
qed

lemma foldE_stmtShadows_wf:
  "\<forall>s \<in> set stmts. wfStatement s \<Longrightarrow>
   foldE (stmtShadows (Str name)) stmts acc =
     Inr (acc \<or> (\<exists>s \<in> set stmts. declaredBy name s \<or> declaredByFor name s))"
  by (induction stmts arbitrary: acc) (auto simp: stmtShadows_wf)



lemma replaceElements_iff:
  "list_all2 (\<lambda>x y. replaceIdentifier name w x = Inr y) xs ys \<longleftrightarrow>
   replaceElements name w xs = Inr ys"
proof (induction xs arbitrary: ys)
  case Nil
  then show ?case by auto
next
  case (Cons x xs)
  show ?case
    by (cases ys) (auto simp: Cons.IH split: sum.splits)
qed

lemma replaceValue_iff:
  "fieldSubstituted name w v v' \<longleftrightarrow> replaceValue name w v = Inr v'"
  by (cases v; cases v')
     (auto simp: fieldSubstituted_def replaceElements_iff split: sum.splits)

lemma replaceFields_iff_aux:
  "list_all2 (\<lambda>(k, v) (k', v'). k' = k \<and> replaceValue name w v = Inr v') kvs kvs' \<longleftrightarrow>
   replaceFields name w kvs = Inr kvs'"
proof (induction kvs arbitrary: kvs')
  case Nil
  then show ?case by auto
next
  case (Cons kv kvs)
  show ?case
    by (cases kv; cases kvs')
       (auto simp: Cons.IH split: sum.splits)
qed

lemma replaceFields_iff:
  "list_all2 (\<lambda>(k, v) (k', v'). k' = k \<and> fieldSubstituted name w v v') kvs kvs' \<longleftrightarrow>
   replaceFields name w kvs = Inr kvs'"
  by (simp add: replaceValue_iff replaceFields_iff_aux)

lemma shadowedAt_notShadowedHere:
  "notShadowedHere name kvs \<Longrightarrow> shadowedAt (Str name) kvs = Inr False"
  by (auto simp: notShadowedHere_def shadowedAt_def foldE_stmtShadows_wf split: jsval.splits)

lemma timesTwo_substituted:
  "replaceIdentifier (Str ''x'') aPlus1 (mkFunction ''FunctionDeclaration'' ''f'' [mkIdentifier ''x''] [timesTwo])
   = Inr (mkFunction ''FunctionDeclaration'' ''f'' [aPlus1]
            [mkReturn (mkBinary ''*'' aPlus1 (mkLiteral 2))])"
  by (simp add: mkFunction_def timesTwo_def mkReturn_def mkBinary_def mkIdentifier_def mkLiteral_def
      mkBlock_def isIdentifier_def shadowedAt_def field_def stmtShadows_def aPlus1_def)

lemma render_timesTwo:
  "renderFunction gen (mkFunction ''FunctionDeclaration'' ''f'' [aPlus1]
            [mkReturn (mkBinary ''*'' aPlus1 (mkLiteral 2))])
    = gen (mkBinary ''*'' aPlus1 (mkLiteral 2))"
  by (simp add: renderFunction_def mkFunction_def mkBlock_def mkReturn_def field_def)

text \<open>
  Claim C2.  An object that is an identifier node called \<open>name\<close> is replaced by the
  replacement tree itself, whatever that tree contains.  Any other object whose own
  statement list (if it has one) does not declare \<open>name\<close> comes back as an object with
  the same keys, each field value treated as \<open>fieldSubstituted\<close> says.  Substituting the
  tree of \<open>a+1\<close> for \<open>x\<close> in \<open>function f(x) { return x*2; }\<close> and rendering the result hands
  the generator the tree of \<open>(a+1)*2\<close>.
\<close>

theorem substitution_step:
  "(isIdentifier (Str name) kvs \<longrightarrow> replaceIdentifier (Str name) withAst (Obj kvs) = Inr withAst) \<and>
   (\<not> isIdentifier (Str name) kvs \<and> notShadowedHere name kvs \<longrightarrow>
      (replaceIdentifier (Str name) withAst (Obj kvs) = Inr r \<longleftrightarrow>
       (case r of
          Obj kvs' \<Rightarrow>
            list_all2 (\<lambda>(k, v) (k', v'). k' = k \<and> fieldSubstituted (Str name) withAst v v') kvs kvs'
        | _ \<Rightarrow> False))) \<and>
   bindE (replaceIdentifier (Str ''x'') aPlus1
            (mkFunction ''FunctionDeclaration'' ''f'' [mkIdentifier ''x''] [timesTwo]))
         (renderFunction gen)
     = gen (mkBinary ''*'' aPlus1 (mkLiteral 2))"
proof (intro conjI impI)
  assume "isIdentifier (Str name) kvs"
  then show "replaceIdentifier (Str name) withAst (Obj kvs) = Inr withAst" by simp
next
  assume a: "\<not> isIdentifier (Str name) kvs \<and> notShadowedHere name kvs"
  then have "shadowedAt (Str name) kvs = Inr False" by (simp add: shadowedAt_notShadowedHere)
  with a show "replaceIdentifier (Str name) withAst (Obj kvs) = Inr r \<longleftrightarrow>
       (case r of
          Obj kvs' \<Rightarrow>
            list_all2 (\<lambda>(k, v) (k', v'). k' = k \<and> fieldSubstituted (Str name) withAst v v') kvs kvs'
        | _ \<Rightarrow> False)"
    by (cases r) (auto simp: replaceFields_iff split: sum.splits)
next
  show "bindE (replaceIdentifier (Str ''x'') aPlus1
            (mkFunction ''FunctionDeclaration'' ''f'' [mkIdentifier ''x''] [timesTwo]))
         (renderFunction gen)
     = gen (mkBinary ''*'' aPlus1 (mkLiteral 2))"
    by (simp only: timesTwo_substituted bindE_simps render_timesTwo)
qed

theorem substitution_step_witness:
  "replaceIdentifier (Str ''x'') aPlus1 (mkIdentifier ''x'') = Inr aPlus1 \<and>
   replaceIdentifier (Str ''x'') aPlus1 timesTwo = Inr (mkReturn (mkBinary ''*'' aPlus1 (mkLiteral 2)))"
proof
  have "isIdentifier (Str ''x'') [(''type'', Str ''Identifier''), (''name'', Str ''x'')]"
    by (simp add: isIdentifier_def field_def)
  with substitution_step [of "''x''" "[(''type'', Str ''Identifier''), (''name'', Str ''x'')]" aPlus1]
  show "replaceIdentifier (Str ''x'') aPlus1 (mkIdentifier ''x'') = Inr aPlus1"
    by (simp add: mkIdentifier_def)
next
  let ?kvs = "[(''type'', Str ''ReturnStatement''),
               (''argument'', mkBinary ''*'' (mkIdentifier ''x'') (mkLiteral 2))]"
  let ?r = "mkReturn (mkBinary ''*'' aPlus1 (mkLiteral 2))"
  have 1: "\<not> isIdentifier (Str ''x'') ?kvs \<and> notShadowedHere ''x'' ?kvs"
    by (simp add: isIdentifier_def notShadowedHere_def field_def)
  have 2: "(case ?r of
          Obj kvs' \<Rightarrow>
            list_all2 (\<lambda>(k, v) (k', v'). k' = k \<and> fieldSubstituted (Str ''x'') aPlus1 v v') ?kvs kvs'
        | _ \<Rightarrow> False)"
    by (simp add: mkReturn_def mkBinary_def fieldSubstituted_def mkIdentifier_def mkLiteral_def
         isIdentifier_def shadowedAt_def field_def aPlus1_def)
  from substitution_step [of "''x''" ?kvs aPlus1 ?r] 1 2
  show "replaceIdentifier (Str ''x'') aPlus1 timesTwo = Inr ?r"
    by (simp add: timesTwo_def mkReturn_def)
qed

lemma substitute_everything:
  "(noDeclaration name t \<longrightarrow> replaceIdentifier (Str name) w t = Inr r \<longrightarrow> r = substituteAll name w t)"
  "(noDeclaration name v \<longrightarrow> replaceValue (Str name) w v = Inr r \<longrightarrow> r = substituteValue name w v)"
  "(noDeclarationIn name xs \<longrightarrow> replaceElements (Str name) w xs = Inr rs \<longrightarrow> rs = substituteElements name w xs)"
  "(noDeclarationInFields name kvs \<longrightarrow> replaceFields (Str name) w kvs = Inr rkvs \<longrightarrow> rkvs = substituteFields name w kvs)"
  "(noDeclarationIn name xs \<longrightarrow> replaceValues (Str name) w xs = Inr rs \<longrightarrow> rs = substituteValues name w xs)"
proof (induction name w t and name w v and name w xs and name w kvs and name w xs
       arbitrary: r and r and rs and rkvs and rs
       rule: substituteAll_substituteValue_substituteElements_substituteFields_substituteValues.induct)
qed (auto simp: shadowedAt_notShadowedHere split: sum.splits if_splits)


lemma substituteFields_lookup:
  "map_of (substituteFields name w kvs) k = map_option (substituteValue name w) (map_of kvs k)"
  by (induction kvs) auto

lemma substituteElements_map: "substituteElements name w xs = map (substituteAll name w) xs"
  by (induction xs) auto

text \<open>
  Claim C10.  Only declarations in statement lists stop the substitution.  On a tree none
  of whose statement lists declares \<open>name\<close>, a call that returns gives the tree with
  every identifier called \<open>name\<close> replaced; the formal parameters of a function
  expression are treated like any other array of nodes, so a parameter called \<open>name\<close> is
  itself replaced.
\<close>

theorem parameters_never_shadow:
  assumes "noDeclaration name t" and "replaceIdentifier (Str name) w t = Inr r"
  shows "r = substituteAll name w t \<and>
         (\<forall>fn ps. fieldOf fn ''type'' = Str ''FunctionExpression'' \<and> fieldOf fn ''params'' = Arr ps \<longrightarrow>
            fieldOf (substituteAll name w fn) ''params'' = Arr (map (substituteAll name w) ps)) \<and>
         substituteAll name w (mkIdentifier name) = w"
proof (intro conjI allI impI)
  show "r = substituteAll name w t"
    using assms substitute_everything(1) by blast
next
  fix fn ps
  assume a: "fieldOf fn ''type'' = Str ''FunctionExpression'' \<and> fieldOf fn ''params'' = Arr ps"
  then obtain kvs where fn: "fn = Obj kvs" by (cases fn) auto
  with a have "\<not> isIdentifier (Str name) kvs" by (simp add: isIdentifier_def)
  with a fn show "fieldOf (substituteAll name w fn) ''params'' = Arr (map (substituteAll name w) ps)"
    by (auto simp: field_def substituteFields_lookup substituteElements_map split: option.splits)
next
  show "substituteAll name w (mkIdentifier name) = w"
    by (simp add: mkIdentifier_def isIdentifier_def field_def)
qed

text \<open>\<open>return function (x) { return x; }\<close> with \<open>a+1\<close> for \<open>x\<close>: both the parameter and the
  use are replaced.\<close>

theorem parameters_never_shadow_witness:
  "replaceIdentifier (Str ''x'') aPlus1 nestedFunction =
     Inr (mkReturn (mkFunction ''FunctionExpression'' [] [aPlus1] [mkReturn aPlus1])) \<and>
   substituteAll ''x'' aPlus1 nestedFunction =
     mkReturn (mkFunction ''FunctionExpression'' [] [aPlus1] [mkReturn aPlus1])"
proof -
  have 1: "noDeclaration ''x'' nestedFunction"
    by (simp add: nestedFunction_def mkReturn_def mkFunction_def mkIdentifier_def mkBlock_def
          notShadowedHere_def field_def wfStatement_def declaredBy_def declaredByFor_def)
  have 2: "replaceIdentifier (Str ''x'') aPlus1 nestedFunction =
     Inr (mkReturn (mkFunction ''FunctionExpression'' [] [aPlus1] [mkReturn aPlus1]))"
    by (simp add: nestedFunction_def mkReturn_def mkFunction_def mkIdentifier_def mkBlock_def
          isIdentifier_def shadowedAt_def field_def stmtShadows_def)
  from parameters_never_shadow [OF 1 2] 2 show ?thesis by simp
qed

section \<open>Properties of \<open>renderFunction\<close>\<close>

text \<open>\<open>renderFunction\<close> of \<open>js-inline-loader.js\<close> does what the specification says: empty
  text for an empty body, the generator's text of the returned expression when the
  first statement is a \<open>return\<close>, and otherwise the generator's text of the whole statement
  list as a program.\<close>

lemma renderFunction_empty:
  "fieldOf (fieldOf fnAst ''body'') ''body'' = Arr [] \<Longrightarrow> renderFunction gen fnAst = Inr []"
  by (cases fnAst; cases "fieldOf fnAst ''body''") (auto simp: renderFunction_def)

lemma renderFunction_return:
  "fieldOf (fieldOf fnAst ''body'') ''body'' = Arr (s # rest) \<Longrightarrow>
   fieldOf s ''type'' = Str ''ReturnStatement'' \<Longrightarrow>
   renderFunction gen fnAst = gen (fieldOf s ''argument'')"
  by (cases fnAst; cases "fieldOf fnAst ''body''"; cases s) (auto simp: renderFunction_def)

lemma renderFunction_other:
  "fieldOf (fieldOf fnAst ''body'') ''body'' = Arr (s # rest) \<Longrightarrow> isObj s \<Longrightarrow>
   fieldOf s ''type'' \<noteq> Str ''ReturnStatement'' \<Longrightarrow>
   renderFunction gen fnAst = gen (programFragment (Arr (s # rest)))"
  by (cases fnAst; cases "fieldOf fnAst ''body''"; cases s) (auto simp: renderFunction_def)

text \<open>
  Claim C3.  \<open>renderFunction\<close> of \<open>function-inline-loader.js\<close> has no test for the empty
  body: on \<open>function f() {}\<close> it reads \<open>type\<close> of \<open>ast.body.body[0]\<close>, which is \<open>undefined\<close>,
  and raises instead of returning the empty text.
\<close>

theorem renderFunction_fil_empty_body:
  "renderFunction_fil gen emptyFunction = Inl TypeError"
  by (simp add: renderFunction_fil_def emptyFunction_def mkFunction_def mkBlock_def field_def)

section \<open>Properties of \<open>getExportedFunctions\<close>\<close>

text \<open>A top-level statement whose \<open>type\<close> is none of the five the resolver tests for leaves
  the table as it is.\<close>

lemma topLevel_other_type:
  assumes "isObj node"
    and "fieldOf node ''type'' \<notin> {Str ''ExportNamedDeclaration'', Str ''FunctionDeclaration'',
           Str ''VariableDeclaration'', Str ''ExportDefaultDeclaration'', Str ''ExpressionStatement''}"
  shows "topLevel scopeFunctions node = Inr scopeFunctions"
  using assms by (cases node) (auto simp: topLevel_def isExportsBag_def)

text \<open>
  Claim C6.  An expression statement that is not an assignment is none of the recognized
  shapes, yet it is not ignored: the test for the \<open>module.exports\<close> shape reads
  \<open>node.expression.left.type\<close>, and \<open>left\<close> is \<open>undefined\<close> on a call.  The module \<open>foo();\<close>
  makes the resolver raise.
\<close>

theorem topLevel_call_statement:
  "getExportedFunctions callStatementModule = Inl TypeError"
  by (simp add: getExportedFunctions_def callStatementModule_def mkProgram_def field_def
       topLevel_def mkExpressionStatement_def isExportsBag_def mkCall_def)

lemma keepExported_fold:
  "distinct (map fst fns) \<Longrightarrow> fst ` set fns \<inter> dom (map_of acc) = {} \<Longrightarrow>
   map_of (foldl (\<lambda>exportedFunc (name, fn).
              if exported fn then AList.update name (ast fn) exportedFunc else exportedFunc)
       acc fns) n =
   (case map_of fns n of
      Some e \<Rightarrow> if exported e then Some (ast e) else map_of acc n
    | None \<Rightarrow> map_of acc n)"
proof (induction fns arbitrary: acc)
  case Nil
  then show ?case by simp
next
  case (Cons p fns)
  obtain k e where p: "p = (k, e)" by (cases p)
  let ?acc = "if exported e then AList.update k (ast e) acc else acc"
  have d: "distinct (map fst fns)" and k: "k \<notin> fst ` set fns"
    using Cons.prems(1) p by auto
  have "fst ` set fns \<inter> dom (map_of ?acc) = {}"
    using Cons.prems(2) k p by (auto simp: update_conv' dom_def split: if_splits)
  from Cons.IH [OF d this] have
    "map_of (foldl (\<lambda>exportedFunc (name, fn).
              if exported fn then AList.update name (ast fn) exportedFunc else exportedFunc)
       ?acc fns) n =
     (case map_of fns n of
        Some e \<Rightarrow> if exported e then Some (ast e) else map_of ?acc n
      | None \<Rightarrow> map_of ?acc n)" .
  moreover have "map_of fns k = None"
    using k by (simp add: map_of_eq_None_iff)
  moreover have "map_of acc k = None"
    using Cons.prems(2) p by (auto simp: dom_def)
  ultimately show ?case
    using p by (auto simp: update_conv' split: option.splits)
qed

lemma keepExported_view:
  "distinct (map fst (entries functions)) \<Longrightarrow>
   map_of (keepExported functions) = exportedView functions"
  by (rule ext)
     (simp add: keepExported_def keepExported_fold exportedView_def split: option.splits)

lemma foldE_invariant:
  assumes "\<And>s x s'. P s \<Longrightarrow> f s x = Inr s' \<Longrightarrow> P s'"
  shows "P s \<Longrightarrow> foldE f xs s = Inr s' \<Longrightarrow> P s'"
proof (induction xs arbitrary: s)
  case Nil
  then show ?case by simp
next
  case (Cons x xs)
  then show ?case using assms
    by (cases "f s x") (auto simp: bindE_def)
qed

lemma forEach_invariant:
  assumes "\<And>s x s'. P s \<Longrightarrow> f s x = Inr s' \<Longrightarrow> P s'"
  shows "P s \<Longrightarrow> forEach v f s = Inr s' \<Longrightarrow> P s'"
  using foldE_invariant [of P f, OF assms] by (cases v) auto

lemma bindE_Inr: "bindE m f = Inr y \<longleftrightarrow> (\<exists>x. m = Inr x \<and> f x = Inr y)"
  by (cases m) auto

text \<open>The walk keeps the own properties of the table in order: their keys are distinct, and
  \<open>__proto__\<close> is never one of them.\<close>

lemma setEntry_proper: "properScope s \<Longrightarrow> properScope (setEntry s n e a)"
  by (simp add: setEntry_def properScope_def distinct_update update_conv')

lemma markExported_proper:
  "properScope s \<Longrightarrow> markExported s k = Inr s' \<Longrightarrow> properScope s'"
  by (auto simp: markExported_def properScope_def lookupScope_def distinct_update update_conv'
           split: option.splits found.splits jsval.splits if_splits)

lemma variableDeclarator_proper:
  "properScope s \<Longrightarrow> variableDeclarator s x = Inr s' \<Longrightarrow> properScope s'"
  by (auto simp: variableDeclarator_def bindE_Inr setEntry_proper split: if_splits)

lemma classMember_proper:
  "properScope s \<Longrightarrow> classMember s x = Inr s' \<Longrightarrow> properScope s'"
  by (auto simp: classMember_def bindE_Inr setEntry_proper split: if_splits)

lemma bagProperty_proper:
  "properScope s \<Longrightarrow> bagProperty s x = Inr s' \<Longrightarrow> properScope s'"
  by (auto simp: bagProperty_def bindE_Inr setEntry_proper
           dest: markExported_proper split: if_splits)

lemma forEach_proper:
  assumes "\<And>s x s'. properScope s \<Longrightarrow> f s x = Inr s' \<Longrightarrow> properScope s'"
    and "forEach v f s = Inr s'" and "properScope s"
  shows "properScope s'"
  using forEach_invariant [of properScope f s v s'] assms by blast

lemma forEach_variableDeclarator_proper:
  assumes "forEach v variableDeclarator s = Inr s'" and "properScope s"
  shows "properScope s'"
  by (rule forEach_proper [where f = variableDeclarator, OF variableDeclarator_proper assms])

lemma forEach_classMember_proper:
  assumes "forEach v classMember s = Inr s'" and "properScope s"
  shows "properScope s'"
  by (rule forEach_proper [where f = classMember, OF classMember_proper assms])

lemma forEach_bagProperty_proper:
  assumes "forEach v bagProperty s = Inr s'" and "properScope s"
  shows "properScope s'"
  by (rule forEach_proper [where f = bagProperty, OF bagProperty_proper assms])

lemma topLevel_proper:
  assumes "properScope s" and "topLevel s x = Inr s'"
  shows "properScope s'"
  using assms unfolding topLevel_def
  by (auto simp: bindE_Inr setEntry_proper split: if_splits
           dest: forEach_variableDeclarator_proper forEach_classMember_proper
                 forEach_bagProperty_proper)

lemma emptyScope_proper: "properScope emptyScope"
  by (simp add: properScope_def emptyScope_def)

lemma walk_proper:
  assumes "forEach b topLevel emptyScope = Inr fns"
  shows "properScope fns"
  by (rule forEach_proper [where f = topLevel, OF topLevel_proper assms emptyScope_proper])

text \<open>A property of the bag whose value names an entry of the table.\<close>

lemma bagProperty_reference:
  assumes "fieldOf (fieldOf p ''key'') ''name'' = Str key"
    and "fieldOf (fieldOf p ''value'') ''type'' = Str ''Identifier''"
    and "fieldOf (fieldOf p ''value'') ''name'' = Str ref"
    and "map_of (entries scopeFunctions) ref = Some e"
    and "key \<noteq> ''__proto__''"
  shows "bagProperty scopeFunctions p =
           Inr (scopeFunctions\<lparr>entries :=
                  AList.update key (if key = ref then e\<lparr>exported := True\<rparr>
                                    else \<lparr>exported = True, ast = ast e\<rparr>)
                    (entries scopeFunctions)\<rparr>)"
proof -
  have k: "isObj (fieldOf p ''key'')" using assms(1) by (rule fieldOf_Str_isObj)
  have v: "isObj (fieldOf p ''value'')" using assms(2) by (rule fieldOf_Str_isObj)
  from k have "isObj p" by (cases p) simp_all
  with k v show ?thesis
    using assms
    by (simp add: bagProperty_def getProp_isObj setEntry_def lookupScope_def markExported_def
          foundAst_def)
qed

text \<open>
  Claim C7.  The resolver returns exactly the entries the walk marked exported: a name is
  in the table returned, with its tree, if and only if the table of the walk has it as an
  own entry marked exported.  A property of the \<open>module.exports\<close> object whose value is an
  identifier naming an entry of the table, and whose key is not \<open>__proto__\<close>, marks that
  entry exported when the key is the same name (its tree is kept), and records the same
  tree, exported, under the key when the key differs; no other entry and not the prototype
  of the table are changed.
\<close>

theorem exported_entries_only:
  "(getExportedFunctions moduleAst = Inr table \<longrightarrow>
      (\<exists>fns. bindE (getProp moduleAst ''body'') (\<lambda>b. forEach b topLevel emptyScope) = Inr fns \<and>
             map_of table = exportedView fns)) \<and>
   (fieldOf (fieldOf p ''key'') ''name'' = Str key \<and>
    fieldOf (fieldOf p ''value'') ''type'' = Str ''Identifier'' \<and>
    fieldOf (fieldOf p ''value'') ''name'' = Str ref \<and>
    map_of (entries scopeFunctions) ref = Some e \<and> key \<noteq> ''__proto__'' \<longrightarrow>
      (\<exists>scope'. bagProperty scopeFunctions p = Inr scope' \<and>
         map_of (entries scope') =
           (map_of (entries scopeFunctions))(key \<mapsto> (if key = ref then e\<lparr>exported := True\<rparr>
                                              else \<lparr>exported = True, ast = ast e\<rparr>)) \<and>
         prototype scope' = prototype scopeFunctions \<and>
         exportedView scope' key = Some (ast e)))"
proof (intro conjI impI)
  assume "getExportedFunctions moduleAst = Inr table"
  then obtain b fns where b: "getProp moduleAst ''body'' = Inr b"
    and w: "forEach b topLevel emptyScope = Inr fns" and t: "table = keepExported fns"
    by (auto simp: getExportedFunctions_def bindE_Inr)
  from w have "properScope fns" by (rule walk_proper)
  then have "map_of table = exportedView fns"
    using t by (simp add: keepExported_view properScope_def)
  with b w show "\<exists>fns. bindE (getProp moduleAst ''body'') (\<lambda>b. forEach b topLevel emptyScope) = Inr fns \<and>
             map_of table = exportedView fns" by simp
next
  assume a: "fieldOf (fieldOf p ''key'') ''name'' = Str key \<and>
    fieldOf (fieldOf p ''value'') ''type'' = Str ''Identifier'' \<and>
    fieldOf (fieldOf p ''value'') ''name'' = Str ref \<and>
    map_of (entries scopeFunctions) ref = Some e \<and> key \<noteq> ''__proto__''"
  then have "bagProperty scopeFunctions p =
           Inr (scopeFunctions\<lparr>entries :=
                  AList.update key (if key = ref then e\<lparr>exported := True\<rparr>
                                    else \<lparr>exported = True, ast = ast e\<rparr>)
                    (entries scopeFunctions)\<rparr>)"
    by (simp add: bagProperty_reference)
  then show "\<exists>scope'. bagProperty scopeFunctions p = Inr scope' \<and>
         map_of (entries scope') =
           (map_of (entries scopeFunctions))(key \<mapsto> (if key = ref then e\<lparr>exported := True\<rparr>
                                              else \<lparr>exported = True, ast = ast e\<rparr>)) \<and>
         prototype scope' = prototype scopeFunctions \<and>
         exportedView scope' key = Some (ast e)"
    by (simp add: update_conv' exportedView_def)
qed

text \<open>\<open>function f(x) { return x*2; }  function h() {}  module.exports = { f: f, g: f };\<close>
  exports \<open>f\<close> and \<open>g\<close>, both with the tree of \<open>f\<close>; \<open>h\<close> is absent.\<close>

lemma reExportModule_table:
  "getExportedFunctions reExportModule = Inr [(''f'', fDecl), (''g'', fDecl)]"
  by (simp add: getExportedFunctions_def reExportModule_def mkProgram_def field_def topLevel_def
       mkFunction_def mkIdentifier_def setEntry_def isExportsBag_def mkModuleExports_def
       mkExpressionStatement_def mkProperty_def bagProperty_def keepExported_def fDecl_def
       emptyScope_def lookupScope_def markExported_def foundAst_def)

theorem exported_entries_only_witness:
  "getExportedFunctions reExportModule = Inr [(''f'', fDecl), (''g'', fDecl)] \<and>
   (\<exists>fns. bindE (getProp reExportModule ''body'') (\<lambda>b. forEach b topLevel emptyScope) = Inr fns \<and>
          map_of [(''f'', fDecl), (''g'', fDecl)] = exportedView fns \<and>
          exportedView fns ''h'' = None) \<and>
   (\<exists>scope'. bagProperty \<lparr>entries = [(''f'', \<lparr>exported = False, ast = fDecl\<rparr>)], prototype = None\<rparr>
               (mkProperty ''g'' (mkIdentifier ''f'')) = Inr scope' \<and>
      exportedView scope' ''g'' = Some fDecl \<and> exportedView scope' ''f'' = None)"
proof -
  note t = reExportModule_table
  from exported_entries_only [of reExportModule "[(''f'', fDecl), (''g'', fDecl)]"] t
  obtain fns where 1: "bindE (getProp reExportModule ''body'') (\<lambda>b. forEach b topLevel emptyScope) = Inr fns"
    and 2: "map_of [(''f'', fDecl), (''g'', fDecl)] = exportedView fns" by blast
  from 2 have "exportedView fns ''h'' = map_of [(''f'', fDecl), (''g'', fDecl)] ''h''" by simp
  then have 3: "exportedView fns ''h'' = None" by simp
  let ?s = "\<lparr>entries = [(''f'', \<lparr>exported = False, ast = fDecl\<rparr>)], prototype = None\<rparr>"
  have "fieldOf (fieldOf (mkProperty ''g'' (mkIdentifier ''f'')) ''key'') ''name'' = Str ''g'' \<and>
    fieldOf (fieldOf (mkProperty ''g'' (mkIdentifier ''f'')) ''value'') ''type'' = Str ''Identifier'' \<and>
    fieldOf (fieldOf (mkProperty ''g'' (mkIdentifier ''f'')) ''value'') ''name'' = Str ''f'' \<and>
    map_of (entries ?s) ''f'' = Some \<lparr>exported = False, ast = fDecl\<rparr> \<and> ''g'' \<noteq> ''__proto__''"
    by (simp add: mkProperty_def mkIdentifier_def field_def)
  with exported_entries_only [of moduleAst table "mkProperty ''g'' (mkIdentifier ''f'')" "''g''" "''f''"
      ?s "\<lparr>exported = False, ast = fDecl\<rparr>"]
  obtain scope' where 4: "bagProperty ?s (mkProperty ''g'' (mkIdentifier ''f'')) = Inr scope'"
    and 5: "map_of (entries scope') =
           (map_of (entries ?s))(''g'' \<mapsto> \<lparr>exported = True, ast = fDecl\<rparr>)"
    and 6: "exportedView scope' ''g'' = Some fDecl" by auto
  from 5 have "exportedView scope' ''f'' = None" by (simp add: exportedView_def)
  with t 1 2 3 4 6 show ?thesis by blast
qed

text \<open>
  The names left out above behave differently, in the code and here.  In
  \<open>function f(x) { return x*2; }  module.exports = { __proto__: f };\<close> the assignment
  \<open>scopeFunctions['__proto__'] = ...\<close> replaces the prototype of the table and makes no entry:
  nothing is exported.  In \<open>module.exports = { f: toString };\<close> the name \<open>toString\<close> is found
  on \<open>Object.prototype\<close>, so \<open>f\<close> is exported, with \<open>undefined\<close> for a tree.  In
  \<open>module.exports = { toString: toString };\<close> the flag is set on the built-in function, and
  the table stays empty.
\<close>

lemma protoKeyModule_table:
  "getExportedFunctions
     (mkProgram [fDecl, mkModuleExports [mkProperty ''__proto__'' (mkIdentifier ''f'')]]) = Inr []"
  by (simp add: getExportedFunctions_def mkProgram_def field_def topLevel_def
       mkFunction_def mkIdentifier_def setEntry_def isExportsBag_def mkModuleExports_def
       mkExpressionStatement_def mkProperty_def bagProperty_def keepExported_def fDecl_def
       emptyScope_def lookupScope_def markExported_def foundAst_def)

lemma inheritedReference_table:
  "getExportedFunctions
     (mkProgram [mkModuleExports [mkProperty ''f'' (mkIdentifier ''toString'')]]) =
   Inr [(''f'', Undefined)]"
  by (simp add: getExportedFunctions_def mkProgram_def field_def topLevel_def
       mkIdentifier_def setEntry_def isExportsBag_def mkModuleExports_def
       mkExpressionStatement_def mkProperty_def bagProperty_def keepExported_def
       emptyScope_def lookupScope_def markExported_def foundAst_def protoField_def
       objectPrototypeKeys_def)

lemma inheritedSameName_table:
  "getExportedFunctions
     (mkProgram [mkModuleExports [mkProperty ''toString'' (mkIdentifier ''toString'')]]) = Inr []"
  by (simp add: getExportedFunctions_def mkProgram_def field_def topLevel_def
       mkIdentifier_def setEntry_def isExportsBag_def mkModuleExports_def
       mkExpressionStatement_def mkProperty_def bagProperty_def keepExported_def
       emptyScope_def lookupScope_def markExported_def foundAst_def protoField_def
       objectPrototypeKeys_def)

section \<open>Properties of the drivers\<close>

lemma add3_exported: "getExportedFunctions add3Module = Inr [(''add3'', add3)]"
  by (simp add: getExportedFunctions_def add3Module_def mkProgram_def field_def topLevel_def
        add3_def mkFunction_def mkIdentifier_def setEntry_def keepExported_def emptyScope_def)

lemma truthy_add3: "truthy add3"
  by (simp add: add3_def mkFunction_def)

lemma add3_two_arguments:
  "replaceArguments (Arr [mkLiteral 1, mkLiteral 2]) add3 =
     Inr (mkFunction ''FunctionDeclaration'' ''add3''
       [mkLiteral 1, mkLiteral 2, mkIdentifier ''c'']
       [mkReturn (mkBinary ''+'' (mkBinary ''+'' (mkLiteral 1) (mkLiteral 2)) (mkIdentifier ''c''))])"
  by (simp add: replaceArguments_def replaceArgument_def add3_def mkFunction_def mkBlock_def
       mkReturn_def mkBinary_def mkIdentifier_def mkLiteral_def field_def isIdentifier_def
       shadowedAt_def stmtShadows_def eval_nat_numeral)

text \<open>\<open>function-inline-loader.js\<close> compares the two counts: a mismatch gives the diagnostic
  and the placeholder, and the sweep goes on with the next match.\<close>

lemma inlineMacro_arity_mismatch:
  assumes "parseModule L (loadModuleContents L (resolvePath L (gFile m))) = Inr tree"
    and "getExportedFunctions tree = Inr exportedFn"
    and "map_of exportedFn (gFunction m) = Some (Obj fn)"
    and "field fn ''params'' = Arr ps"
    and "compileArgumentAst L (gArgs m) = Inr (Arr args)"
    and "length args \<noteq> length ps"
  shows "inlineMacro L fx m =
     Inr (''/* Invalid syntax for '' @ gFunction m @ '' */'',
          emitError (''Function '' @ gFunction m @ '' is expecting exactly '' @
                     showNat (length ps) @ '' arguments, but got '' @ showNat (length args))
            (addDependency (resolvePath L (gFile m)) fx))"
  using assms by (simp add: inlineMacro_def lookupExported_def field_def Let_def showInt_def)

lemma sweep_after_placeholder:
  "inlineMacro L fx m = Inr (code, fx') \<Longrightarrow>
   sweep L (Macro m # segs) (out, fx) = sweep L segs (out @ code, fx')"
  by simp

text \<open>
  Claim C4.  \<open>getFunctionCode\<close> of \<open>js-inline-loader.js\<close> has no such comparison.  With two
  arguments for \<open>function add3(a, b, c) { return a + b + c; }\<close> it substitutes the first two
  parameters and renders \<open>1 + 2 + c\<close>: no diagnostic is emitted and no placeholder is
  returned.
\<close>

theorem getFunctionCode_arity_unchecked:
  "getFunctionCode (add3Loader g) fx (Str ''math'') (Str ''add3'') (Arr [mkLiteral 1, mkLiteral 2]) =
     bindE (g (mkBinary ''+'' (mkBinary ''+'' (mkLiteral 1) (mkLiteral 2)) (mkIdentifier ''c'')))
       (\<lambda>code. Inr (code, addDependency ''/src/math'' fx))"
proof -
  have "renderFunction g (mkFunction ''FunctionDeclaration'' ''add3''
       [mkLiteral 1, mkLiteral 2, mkIdentifier ''c'']
       [mkReturn (mkBinary ''+'' (mkBinary ''+'' (mkLiteral 1) (mkLiteral 2)) (mkIdentifier ''c''))])
     = g (mkBinary ''+'' (mkBinary ''+'' (mkLiteral 1) (mkLiteral 2)) (mkIdentifier ''c''))"
    by (simp add: renderFunction_def mkFunction_def mkBlock_def mkReturn_def field_def)
  then show ?thesis
    by (simp add: getFunctionCode_def add3Loader_def loadModuleContents_def add3_exported
          lookupExported_def field_def add3_two_arguments truthy_add3 Let_def)
qed

text \<open>With more arguments than parameters it raises: \<open>fnAst.params[3]\<close> is \<open>undefined\<close>.\<close>

lemma getFunctionCode_too_many_arguments:
  "getFunctionCode (add3Loader g) fx (Str ''math'') (Str ''add3'')
     (Arr [mkLiteral 1, mkLiteral 2, mkLiteral 3, mkLiteral 4]) = Inl TypeError"
proof -
  have "replaceArguments (Arr [mkLiteral 1, mkLiteral 2, mkLiteral 3, mkLiteral 4]) add3 = Inl TypeError"
    by (simp add: replaceArguments_def replaceArgument_def add3_def mkFunction_def mkBlock_def
       mkReturn_def mkBinary_def mkIdentifier_def mkLiteral_def field_def isIdentifier_def
       shadowedAt_def stmtShadows_def eval_nat_numeral)
  then show ?thesis
    by (simp add: getFunctionCode_def add3Loader_def loadModuleContents_def add3_exported
          lookupExported_def field_def truthy_add3 Let_def)
qed

text \<open>\<open>getFunctionCode\<close> of \<open>js-inline-loader.js\<close> answers a module that cannot be read, a
  module that does not parse and an unknown function with a diagnostic and a
  placeholder.  A function name that every object inherits is not unknown to it: the
  lookup finds the built-in, and the call raises at \<open>fnAst.params[i]\<close> or at
  \<open>ast.body.body\<close>.\<close>

lemma getFunctionCode_missing_module:
  "loadModuleContents L (resolvePath L m) = None \<Longrightarrow>
   getFunctionCode L fx (Str m) fnName fnArgs =
     Inr (''/* Missing module '' @ m @ '' */'', emitError (''Could not find module `'' @ m @ ''`'') fx)"
  by (simp add: getFunctionCode_def)

lemma getFunctionCode_unparseable_module:
  "loadModuleContents L (resolvePath L m) = Some contents \<Longrightarrow>
   parseModule L (Some contents) = Inl e \<Longrightarrow>
   getFunctionCode L fx (Str m) fnName fnArgs =
     Inr (''/* Parsing error in module '' @ m @ '' */'',
          emitError (''%inline('' @ [CHR 0x22] @ m @ [CHR 0x22] @ ''): '' @ errorText e) fx)"
  by (simp add: getFunctionCode_def)

lemma getFunctionCode_unknown_function:
  "loadModuleContents L (resolvePath L m) = Some contents \<Longrightarrow>
   parseModule L (Some contents) = Inr tree \<Longrightarrow>
   getExportedFunctions tree = Inr exportedFn \<Longrightarrow>
   map_of exportedFn f = None \<Longrightarrow>
   f \<noteq> ''__proto__'' \<Longrightarrow> f \<notin> set objectPrototypeKeys \<Longrightarrow>
   getFunctionCode L fx (Str m) (Str f) fnArgs =
     Inr (''/* Unknown inline '' @ f @ '' */'',
          emitError (''%inline('' @ [CHR 0x22] @ m @ [CHR 0x22] @ ''): Undefined function `'' @ f)
            (addDependency (resolvePath L m) fx))"
  by (simp add: getFunctionCode_def lookupExported_def Let_def)

lemma replaceArgumentsFrom_builtIn:
  "replaceArgumentsFrom fnArgs i k builtIn = (if k = 0 then Inr builtIn else Inl TypeError)"
  by (cases k) (simp_all add: replaceArgument_def builtIn_def field_def)

lemma getFunctionCode_inherited_name:
  assumes "loadModuleContents L (resolvePath L m) = Some contents"
    and "parseModule L (Some contents) = Inr tree"
    and "getExportedFunctions tree = Inr exportedFn"
    and "map_of exportedFn f = None"
    and "f = ''__proto__'' \<or> f \<in> set objectPrototypeKeys"
  shows "getFunctionCode L fx (Str m) (Str f) (Arr args) = Inl TypeError"
proof -
  have l: "lookupExported exportedFn f = builtIn"
    using assms(4,5) by (auto simp: lookupExported_def)
  have t: "truthy builtIn"
    by (simp add: builtIn_def)
  have ra: "replaceArguments (Arr args) builtIn = (if args = [] then Inr builtIn else Inl TypeError)"
    by (simp add: replaceArguments_def replaceArgumentsFrom_builtIn)
  have rf: "renderFunction (generate L) builtIn = Inl TypeError"
    by (simp add: renderFunction_def builtIn_def field_def)
  show ?thesis
    using assms(1-3) by (simp add: getFunctionCode_def Let_def l t ra rf)
qed

text \<open>The callback of \<open>function-inline-loader.js\<close> makes the same lookup: for a name every
  object inherits it goes on to \<open>fnAst.params.length\<close>, and raises.\<close>

lemma inlineMacro_inherited_name:
  assumes "parseModule L (loadModuleContents L (resolvePath L (gFile m))) = Inr tree"
    and "getExportedFunctions tree = Inr exportedFn"
    and "map_of exportedFn (gFunction m) = None"
    and "gFunction m = ''__proto__'' \<or> gFunction m \<in> set objectPrototypeKeys"
    and "compileArgumentAst L (gArgs m) = Inr (Arr args)"
  shows "inlineMacro L fx m = Inl TypeError"
proof -
  have l: "lookupExported exportedFn (gFunction m) = builtIn"
    using assms(3,4) by (auto simp: lookupExported_def)
  have t: "truthy builtIn" "getProp builtIn ''params'' = Inr Undefined"
    by (simp_all add: builtIn_def field_def)
  show ?thesis
    using assms(1,2,5) by (simp add: inlineMacro_def Let_def l t)
qed

text \<open>
  Claim C5.  The callback of \<open>function-inline-loader.js\<close> calls the parser outside any
  \<open>try\<close>: when the target module does not parse, the error leaves the callback and the
  whole transform, whatever else the file holds; no diagnostic is emitted and no
  placeholder is substituted.
\<close>

theorem inlineMacro_unparseable_module:
  "inlineMacro (L\<lparr>parseModule := \<lambda>contents. Inl e\<rparr>) fx m = Inl e \<and>
   functionInlineLoader (L\<lparr>parseModule := \<lambda>contents. Inl e\<rparr>) (\<lambda>source. Text t # Macro m # segs)
     fx source = Inl e"
  by (simp add: inlineMacro_def functionInlineLoader_def Let_def)

text \<open>A macro written with a no-break space after \<open>%inline\<close> is a match of \<open>MACRO\<close>.\<close>

lemma normalise_noBreakSpace:
  "normalise (''%inline'' @ [CHR 0xA0] @ ''('' @ [CHR 0x27] @ ''m'' @ [CHR 0x27] @ '').f(1)'') =
     (macroCall ''m'' ''f'' False @ ''1)'', True)"
  by (simp add: macroAt_def expectText_def macroTail_def isQuote_def isSpace_def
        isWord_def isLineTerminator_def macroCall_def)

lemma normalise_brokenSource:
  "normalise brokenSource = (''var a = '' @ macroCall ''m'' ''f'' False @ ''1); var = ;'', True)"
  by (simp add: brokenSource_def macroAt_def expectText_def macroTail_def isQuote_def isSpace_def
        isWord_def isLineTerminator_def macroCall_def)

text \<open>
  Claim C8, as the code has it.  When the text handed to \<open>replaceInlineFunc\<close> does not
  parse, in any round, the loop emits one diagnostic and returns that text as it stands,
  without raising.  For the transform this text is the source after \<open>MACRO\<close> has rewritten
  every macro into a call of the marker function.
\<close>

theorem host_parse_failure:
  "(parseRanged L source = Inl e \<longrightarrow>
      replaceInlineFunc L fx source = Some (Inr (source, emitError (hostFailure e) fx))) \<and>
   (snd (normalise source) \<and> parseRanged L (fst (normalise source)) = Inl e \<longrightarrow>
      jsInlineLoader L fx source =
        Some (Inr (fst (normalise source), emitError (hostFailure e) (fx\<lparr>cacheable := True\<rparr>))))"
proof -
  have 1: "replaceInlineFunc L fx source = Some (Inr (source, emitError (hostFailure e) fx))"
    if "parseRanged L source = Inl e" for fx source
    using that by (subst replaceInlineFunc.simps) (simp add: hostFailure_def)
  show ?thesis
    by (auto simp: 1 jsInlineLoader_def Let_def split: prod.splits)
qed

theorem host_parse_failure_witness:
  "jsInlineLoader rejectingLoader noEffects brokenSource =
     Some (Inr (''var a = '' @ macroCall ''m'' ''f'' False @ ''1); var = ;'',
                emitError (hostFailure (SyntaxError ''Error: Line 2: Unexpected token =''))
                  (noEffects\<lparr>cacheable := True\<rparr>)))"
  using host_parse_failure [of rejectingLoader brokenSource
      "SyntaxError ''Error: Line 2: Unexpected token =''" noEffects]
  by (simp add: normalise_brokenSource rejectingLoader_def)

text \<open>The text returned is not the original source: the macro of
  \<open>var a = %inline('m').f(1); var = ;\<close> comes back as \<open>___js_inline_loader_inline('m',f,1)\<close>.\<close>

theorem host_parse_failure_counterexample:
  "map_option (map_sum id fst) (jsInlineLoader rejectingLoader noEffects brokenSource) =
     Some (Inr (''var a = '' @ macroCall ''m'' ''f'' False @ ''1); var = ;'')) \<and>
   ''var a = '' @ macroCall ''m'' ''f'' False @ ''1); var = ;'' \<noteq> brokenSource"
proof
  have "replaceInlineFunc rejectingLoader fx s =
          Some (Inr (s, emitError (hostFailure (SyntaxError ''Error: Line 2: Unexpected token ='')) fx))"
    for fx s
    by (subst replaceInlineFunc.simps) (simp add: rejectingLoader_def hostFailure_def)
  then show "map_option (map_sum id fst) (jsInlineLoader rejectingLoader noEffects brokenSource) =
     Some (Inr (''var a = '' @ macroCall ''m'' ''f'' False @ ''1); var = ;''))"
    by (simp add: jsInlineLoader_def normalise_brokenSource)
next
  show "''var a = '' @ macroCall ''m'' ''f'' False @ ''1); var = ;'' \<noteq> brokenSource"
    by (simp add: brokenSource_def macroCall_def)
qed

section \<open>Properties of \<open>replaceIdentifier\<close> on the heap\<close>

text \<open>The writes go to the cell at \<open>new\<close> only.\<close>

lemma setField_frame:
  "n \<le> new \<Longrightarrow> take n (setField new k v h) = take n h"
  "length (setField new k v h) = length h"
  by (auto simp: setField_def split: cell.splits)

lemma pushElement_frame:
  "n \<le> new \<Longrightarrow> take n (pushElement new v h) = take n h"
  "length (pushElement new v h) = length h"
  by (auto simp: pushElement_def split: cell.splits)

lemma bindO_frame:
  assumes "length h \<le> length (snd m) \<and> take n (snd m) = take n h"
    and "\<And>x h1. length h \<le> length h1 \<Longrightarrow> take n h1 = take n h \<Longrightarrow>
           length h \<le> length (snd (f x h1)) \<and> take n (snd (f x h1)) = take n h"
  shows "length h \<le> length (snd (bindO m f)) \<and> take n (snd (bindO m f)) = take n h"
  using assms by (cases m; cases "fst m") (auto simp: bindO_def)

lemma mapElementsH_frame:
  assumes "keepsBelow n self" and "n \<le> new" and "n \<le> length h"
  shows "length h \<le> length (snd (mapElementsH self src i k new h)) \<and>
         take n (snd (mapElementsH self src i k new h)) = take n h"
  using assms(3)
proof (induction k arbitrary: i h)
  case 0
  then show ?case by simp
next
  case (Suc k)
  show ?case
    unfolding mapElementsH.simps
  proof (rule bindO_frame)
    show "length h \<le> length (snd (self (elementAt h src i) h)) \<and>
          take n (snd (self (elementAt h src i) h)) = take n h"
      using assms(1) Suc.prems by (simp add: keepsBelow_def)
  next
    fix y h1
    assume a: "length h \<le> length h1" "take n h1 = take n h"
    have "n \<le> length (pushElement new y h1)"
      using a Suc.prems by (simp add: pushElement_frame)
    from Suc.IH [OF this, of "Suc i"] a assms(2)
    show "length h \<le> length (snd (mapElementsH self src (Suc i) k new (pushElement new y h1))) \<and>
          take n (snd (mapElementsH self src (Suc i) k new (pushElement new y h1))) = take n h"
      by (simp add: pushElement_frame)
  qed
qed

lemma replaceValueH_frame:
  assumes "keepsBelow n self" and "n \<le> length h"
  shows "length h \<le> length (snd (replaceValueH self v h)) \<and>
         take n (snd (replaceValueH self v h)) = take n h"
proof (cases "elementsH h v")
  case (Some xs)
  have "length (h @ [HArray []]) \<le> length (snd (mapElementsH self v 0 (length xs) (length h) (h @ [HArray []]))) \<and>
        take n (snd (mapElementsH self v 0 (length xs) (length h) (h @ [HArray []]))) = take n (h @ [HArray []])"
    using assms by (intro mapElementsH_frame) simp_all
  then have "length h \<le> length (snd (mapElementsH self v 0 (length xs) (length h) (h @ [HArray []]))) \<and>
        take n (snd (mapElementsH self v 0 (length xs) (length h) (h @ [HArray []]))) = take n h"
    using assms(2) by simp
  then show ?thesis
    using Some by (simp add: replaceValueH_def) (rule bindO_frame, simp_all)
next
  case None
  then show ?thesis
    using assms by (cases v) (simp_all add: replaceValueH_def keepsBelow_def)
qed

lemma reduceKeysH_frame:
  assumes "keepsBelow n self" and "n \<le> new" and "n \<le> length h"
  shows "length h \<le> length (snd (reduceKeysH self inAst keys new h)) \<and>
         take n (snd (reduceKeysH self inAst keys new h)) = take n h"
  using assms(3)
proof (induction keys arbitrary: h)
  case Nil
  then show ?case by simp
next
  case (Cons key keys)
  show ?case
    unfolding reduceKeysH.simps
  proof (rule bindO_frame)
    show "length h \<le> length (snd (replaceValueH self (fieldH (ownFields h inAst) key) h)) \<and>
          take n (snd (replaceValueH self (fieldH (ownFields h inAst) key) h)) = take n h"
      using assms(1) Cons.prems by (rule replaceValueH_frame)
  next
    fix v h1
    assume a: "length h \<le> length h1" "take n h1 = take n h"
    have "n \<le> length (setField new key v h1)"
      using a Cons.prems by (simp add: setField_frame)
    from Cons.IH [OF this] a assms(2)
    show "length h \<le> length (snd (reduceKeysH self inAst keys new (setField new key v h1))) \<and>
          take n (snd (reduceKeysH self inAst keys new (setField new key v h1))) = take n h"
      by (simp add: setField_frame)
  qed
qed

lemma replaceIdentifierH_keepsBelow:
  "keepsBelow n (replaceIdentifierH fuel name withAst)"
proof (induction fuel)
  case 0
  then show ?case by (simp add: keepsBelow_def)
next
  case (Suc fuel)
  show ?case
    unfolding keepsBelow_def
  proof (intro allI impI)
    fix v and h :: heap
    assume n: "n \<le> length h"
    let ?r = "reduceKeysH (replaceIdentifierH fuel name withAst) v
                (map fst (ownFields h v)) (length h) (h @ [HObject []])"
    have "length (h @ [HObject []]) \<le> length (snd ?r) \<and> take n (snd ?r) = take n (h @ [HObject []])"
      using Suc.IH n by (intro reduceKeysH_frame) simp_all
    then have r: "length h \<le> length (snd ?r) \<and> take n (snd ?r) = take n h"
      using n by simp
    have "length h \<le> length (snd (bindO ?r (\<lambda>u h'. (Returns (HRef (length h)), h')))) \<and>
          take n (snd (bindO ?r (\<lambda>u h'. (Returns (HRef (length h)), h')))) = take n h"
      using r by (rule bindO_frame) simp
    then show "length h \<le> length (snd (replaceIdentifierH (Suc fuel) name withAst v h)) \<and>
          take n (snd (replaceIdentifierH (Suc fuel) name withAst v h)) = take n h"
      by (simp split: sum.splits bool.splits)
  qed
qed

lemma replaceIdentifierH_frame:
  "length h \<le> length (snd (replaceIdentifierH fuel name withAst inAst h)) \<and>
   take (length h) (snd (replaceIdentifierH fuel name withAst inAst h)) = h"
  using replaceIdentifierH_keepsBelow [of "length h" fuel name withAst]
  by (simp add: keepsBelow_def)

subsection \<open>The heap model computes what the value model computes\<close>

text \<open>Array index keys are distinct: the decimal numeral of a number determines it.\<close>

inductive_simps reprIn_simps:
  "reprIn A h HUndefined t" "reprIn A h HNull t" "reprIn A h (HBool b) t"
  "reprIn A h (HNum n) t" "reprIn A h (HStr s) t" "reprIn A h (HRef a) t"

inductive_simps reprIn_tree_simps:
  "reprIn A h v Undefined" "reprIn A h v Null" "reprIn A h v (Bool b)"
  "reprIn A h v (Num n)" "reprIn A h v (Str s)" "reprIn A h v (Obj kvs)" "reprIn A h v (Arr ts)"

lemma reprIn_transfer:
  assumes "reprIn A h v t"
    and "\<And>a. A a \<Longrightarrow> a < length h \<Longrightarrow> B a \<and> a < length h' \<and> h' ! a = h ! a"
  shows "reprIn B h' v t"
  using assms(1)
proof (induction rule: reprIn.induct)
  case (6 a fs kvs)
  from assms(2) [OF 6(1,2)] 6 show ?case
    by (intro reprIn.intros(6) [where fs = fs]) (auto elim: list_all2_mono)
next
  case (7 a vs ts)
  from assms(2) [OF 7(1,2)] 7 show ?case
    by (intro reprIn.intros(7) [where vs = vs]) (auto elim: list_all2_mono)
qed (auto intro: reprIn.intros)

lemma showNat_nonempty: "showNat n \<noteq> []"
  by (subst showNat.simps) simp

lemma digit_char_inj: "a < 10 \<Longrightarrow> b < 10 \<Longrightarrow> char_of (48 + a :: nat) = (char_of (48 + b) :: char) \<Longrightarrow> a = b"
proof -
  assume a: "a < 10" and b: "b < 10" and e: "char_of (48 + a :: nat) = (char_of (48 + b) :: char)"
  have "of_char (char_of (48 + a) :: char) = (48 + a :: nat)" using a by simp
  moreover have "of_char (char_of (48 + b) :: char) = (48 + b :: nat)" using b by simp
  ultimately show "a = b" using e by simp
qed

lemma showNat_inj: "showNat n = showNat m \<Longrightarrow> n = m"
proof (induction n arbitrary: m rule: showNat.induct)
  case (1 n)
  show ?case
  proof (cases "n < 10")
    case True
    then have n: "showNat n = [char_of (48 + n)]" by (subst showNat.simps) simp
    show ?thesis
    proof (cases "m < 10")
      case m: True
      then have "showNat m = [char_of (48 + m)]" by (subst showNat.simps) simp
      with n "1.prems" True m show ?thesis by (auto dest: digit_char_inj)
    next
      case False
      then have "showNat m = showNat (m div 10) @ [char_of (48 + m mod 10)]"
        by (subst showNat.simps) simp
      with n "1.prems" showNat_nonempty [of "m div 10"] show ?thesis by (cases "showNat (m div 10)") auto
    qed
  next
    case False
    then have n: "showNat n = showNat (n div 10) @ [char_of (48 + n mod 10)]"
      by (subst showNat.simps) simp
    show ?thesis
    proof (cases "m < 10")
      case True
      then have "showNat m = [char_of (48 + m)]" by (subst showNat.simps) simp
      with n "1.prems" showNat_nonempty [of "n div 10"] show ?thesis by (cases "showNat (n div 10)") auto
    next
      case m: False
      then have "showNat m = showNat (m div 10) @ [char_of (48 + m mod 10)]"
        by (subst showNat.simps) simp
      with n "1.prems" have e: "showNat (n div 10) = showNat (m div 10)"
        and d: "char_of (48 + n mod 10) = (char_of (48 + m mod 10) :: char)" by auto
      from "1.IH" [OF False e] have "n div 10 = m div 10" .
      moreover from d have "n mod 10 = m mod 10" by (auto dest!: digit_char_inj [rotated 2])
      ultimately show ?thesis by (metis div_mult_mod_eq)
    qed
  qed
qed

lemma distinct_indexKeys: "distinct (indexKeys n)"
  unfolding indexKeys_def by (simp add: distinct_map inj_on_def) (auto dest: showNat_inj)

text \<open>Reading properties, the shadowing scan and the identifier test give the same answers on
  a heap value and on the tree it stands for.\<close>

lemma reprIn_field:
  assumes "map fst fs = map fst kvs" and "list_all2 (reprIn A h) (map snd fs) (map snd kvs)"
  shows "reprIn A h (fieldH fs k) (field kvs k)"
  using assms
proof (induction fs arbitrary: kvs)
  case Nil
  then show ?case by (simp add: fieldH_def field_def reprIn.intros)
next
  case (Cons f fs)
  then obtain kv kvs' where kvs: "kvs = kv # kvs'" by (cases kvs) auto
  with Cons.prems have "fst f = fst kv" "reprIn A h (snd f) (snd kv)"
    "map fst fs = map fst kvs'" "list_all2 (reprIn A h) (map snd fs) (map snd kvs')" by auto
  with Cons.IH [of kvs'] kvs show ?case
    by (cases f; cases kv) (auto simp: fieldH_def field_def)
qed

lemma reprIn_getProp:
  assumes "reprIn A h v t"
  shows "case getProp t k of
           Inl e \<Rightarrow> getPropH h v k = Inl e
         | Inr t' \<Rightarrow> (\<exists>v'. getPropH h v k = Inr v' \<and> reprIn A h v' t')"
  using assms
  by (cases rule: reprIn.cases)
     (auto simp: cellAt_def reprIn_field intro: reprIn.intros)

lemma reprIn_getProp_Inr:
  "reprIn A h v t \<Longrightarrow> getProp t k = Inr t' \<Longrightarrow> \<exists>v'. getPropH h v k = Inr v' \<and> reprIn A h v' t'"
  using reprIn_getProp [of A h v t k] by simp

lemma reprIn_getProp_Inl:
  "reprIn A h v t \<Longrightarrow> getProp t k = Inl e \<Longrightarrow> getPropH h v k = Inl e"
  using reprIn_getProp [of A h v t k] by simp

lemma reprIn_truthy: "reprIn A h v t \<Longrightarrow> truthyH v = truthy t"
  by (erule reprIn.cases) auto

lemma reprIn_Str_eq: "reprIn A h v t \<Longrightarrow> (v = HStr s) = (t = Str s)"
  by (erule reprIn.cases) auto

lemma reprIn_strictEq: "reprIn A h v t \<Longrightarrow> (v = HStr s) = strictEq t (Str s)"
  by (erule reprIn.cases) auto

lemma reprIn_elements:
  assumes "reprIn A h v t"
  shows "case t of
           Arr ts \<Rightarrow> (\<exists>vs. elementsH h v = Some vs \<and> list_all2 (reprIn A h) vs ts)
         | _ \<Rightarrow> elementsH h v = None"
  using assms by (cases rule: reprIn.cases) (auto simp: cellAt_def)

lemma declares_rel:
  assumes "reprIn A h d td"
  shows "declaresH h (HStr nm) b d = declares (Str nm) b td"
proof (cases "getProp td ''id''")
  case (Inl e)
  with reprIn_getProp_Inl [OF assms Inl] show ?thesis
    by (simp add: declaresH_def declares_def)
next
  case (Inr ti)
  from reprIn_getProp_Inr [OF assms Inr] obtain hi where
    hi: "getPropH h d ''id'' = Inr hi" "reprIn A h hi ti" by blast
  show ?thesis
  proof (cases "getProp ti ''name''")
    case (Inl e)
    with reprIn_getProp_Inl [OF hi(2) Inl] Inr hi show ?thesis
      by (simp add: declaresH_def declares_def)
  next
    case n: (Inr tn)
    from reprIn_getProp_Inr [OF hi(2) n] obtain hn where
      hn: "getPropH h hi ''name'' = Inr hn" "reprIn A h hn tn" by blast
    with Inr hi n show ?thesis
      by (simp add: declaresH_def declares_def reprIn_strictEq [OF hn(2)])
  qed
qed

lemma foldH_declares_rel:
  "list_all2 (reprIn A h) ds tds \<Longrightarrow>
   foldH (declaresH h (HStr nm)) ds b = foldE (declares (Str nm)) tds b"
proof (induction ds tds arbitrary: b rule: list_all2_induct)
  case Nil
  then show ?case by simp
next
  case (Cons d ds td tds)
  then show ?case
    by (cases "declares (Str nm) b td") (simp_all add: declares_rel)
qed

lemma forEach_declares_rel:
  assumes "reprIn A h v t"
  shows "forEachH h v (declaresH h (HStr nm)) b = forEach t (declares (Str nm)) b"
  using reprIn_elements [OF assms]
  by (cases t) (auto simp: forEachH_def foldH_declares_rel)

lemma declarations_rel:
  assumes "reprIn A h node tnode"
  shows "bindE (getPropH h node ''declarations'') (\<lambda>ds. forEachH h ds (declaresH h (HStr nm)) b) =
         bindE (getProp tnode ''declarations'') (\<lambda>ds. forEach ds (declares (Str nm)) b)"
proof (cases "getProp tnode ''declarations''")
  case (Inl e)
  with reprIn_getProp_Inl [OF assms Inl] show ?thesis by simp
next
  case (Inr tds)
  from reprIn_getProp_Inr [OF assms Inr] obtain ds where
    "getPropH h node ''declarations'' = Inr ds" "reprIn A h ds tds" by blast
  with Inr show ?thesis by (simp add: forEach_declares_rel)
qed

lemma stmtShadows_rel:
  assumes "reprIn A h node tnode"
  shows "stmtShadowsH h (HStr nm) b node = stmtShadows (Str nm) b tnode"
proof (cases "getProp tnode ''type''")
  case (Inl e)
  with reprIn_getProp_Inl [OF assms Inl] show ?thesis
    by (simp add: stmtShadowsH_def stmtShadows_def)
next
  case (Inr tt)
  from reprIn_getProp_Inr [OF assms Inr] obtain ht where
    ht: "getPropH h node ''type'' = Inr ht" "reprIn A h ht tt" by blast
  have ty: "(ht = HStr s) = (tt = Str s)" for s
    using ht(2) by (rule reprIn_Str_eq)
  have second: "(if tt = Str ''ForStatement''
     then bindE (getPropH h node ''init'') (\<lambda>i.
          if truthyH i
          then bindE (getPropH h i ''type'') (\<lambda>it.
               if it = HStr ''VariableDeclaration''
               then bindE (getPropH h i ''declarations'') (\<lambda>ds. forEachH h ds (declaresH h (HStr nm)) c)
               else Inr c)
          else Inr c)
     else Inr c) =
     (if tt = Str ''ForStatement''
     then bindE (getProp tnode ''init'') (\<lambda>i.
          if truthy i
          then bindE (getProp i ''type'') (\<lambda>it.
               if it = Str ''VariableDeclaration''
               then bindE (getProp i ''declarations'') (\<lambda>ds. forEach ds (declares (Str nm)) c)
               else Inr c)
          else Inr c)
     else Inr c)" for c
  proof (cases "getProp tnode ''init''")
    case (Inl e)
    with reprIn_getProp_Inl [OF assms Inl] show ?thesis by simp
  next
    case i: (Inr ti)
    from reprIn_getProp_Inr [OF assms i] obtain hi where
      hi: "getPropH h node ''init'' = Inr hi" "reprIn A h hi ti" by blast
    show ?thesis
    proof (cases "getProp ti ''type''")
      case (Inl e)
      with reprIn_getProp_Inl [OF hi(2) Inl] i hi show ?thesis
        by (simp add: reprIn_truthy [OF hi(2)])
    next
      case it: (Inr tit)
      from reprIn_getProp_Inr [OF hi(2) it] obtain hit where
        hit: "getPropH h hi ''type'' = Inr hit" "reprIn A h hit tit" by blast
      have "(hit = HStr ''VariableDeclaration'') = (tit = Str ''VariableDeclaration'')"
        using hit(2) by (rule reprIn_Str_eq)
      with i hi it hit show ?thesis
        by (simp add: reprIn_truthy [OF hi(2)] declarations_rel [OF hi(2)])
    qed
  qed
  show ?thesis
    unfolding stmtShadowsH_def stmtShadows_def
    by (simp add: Inr ht ty declarations_rel [OF assms] second
          cong: if_cong)
qed

lemma foldH_stmtShadows_rel:
  "list_all2 (reprIn A h) stmts tstmts \<Longrightarrow>
   foldH (stmtShadowsH h (HStr nm)) stmts b = foldE (stmtShadows (Str nm)) tstmts b"
proof (induction stmts tstmts arbitrary: b rule: list_all2_induct)
  case Nil
  then show ?case by simp
next
  case (Cons d ds td tds)
  then show ?case
    by (cases "stmtShadows (Str nm) b td") (simp_all add: stmtShadows_rel)
qed

lemma shadowedAt_rel:
  assumes "reprIn A h v (Obj kvs)"
  shows "shadowedAtH h (HStr nm) v = shadowedAt (Str nm) kvs"
proof -
  have g: "getProp (Obj kvs) ''body'' = Inr (field kvs ''body'')" by simp
  from reprIn_getProp_Inr [OF assms g] obtain b where
    b: "getPropH h v ''body'' = Inr b" "reprIn A h b (field kvs ''body'')" by blast
  from reprIn_elements [OF b(2)] b(1) show ?thesis
    by (cases "field kvs ''body''")
       (auto simp: shadowedAtH_def shadowedAt_def foldH_stmtShadows_rel)
qed

lemma isIdentifier_rel:
  assumes "reprIn A h v (Obj kvs)"
  shows "isIdentifierH h (HStr nm) v = Inr (isIdentifier (Str nm) kvs)"
proof -
  have g: "getProp (Obj kvs) k = Inr (field kvs k)" for k by simp
  from reprIn_getProp_Inr [OF assms g] obtain t where
    t: "getPropH h v ''type'' = Inr t" "reprIn A h t (field kvs ''type'')" by blast
  from reprIn_getProp_Inr [OF assms g] obtain n where
    n: "getPropH h v ''name'' = Inr n" "reprIn A h n (field kvs ''name'')" by blast
  show ?thesis
    using t n by (simp add: isIdentifierH_def isIdentifier_def reprIn_Str_eq [OF t(2)]
        reprIn_strictEq [OF n(2)])
qed

text \<open>Cells that are only added or written at fresh addresses keep what older values stand
  for.\<close>

lemma size_field: "(k, tv) \<in> set kvs \<Longrightarrow> size tv < size (Obj kvs)"
  by (induction kvs) auto

lemma size_element: "x \<in> set xs \<Longrightarrow> size x < size (Arr xs)"
  by (induction xs) auto

lemma agree_below:
  assumes "length h \<le> length h'" and "take (length h) h' = h" and "a < length h"
  shows "h' ! a = h ! a"
  using assms by (metis nth_take)

lemma reprIn_extend:
  assumes "reprIn A h v t" and "length h \<le> length h'" and "take (length h) h' = h"
  shows "reprIn A h' v t"
  using assms(1)
  by (rule reprIn_transfer) (use assms(2,3) in \<open>auto simp: agree_below\<close>)

lemma reprIn_update_other:
  assumes "reprIn A h v t" and "\<not> A new"
  shows "reprIn A (h[new := c]) v t"
  using assms(1)
proof (rule reprIn_transfer)
  fix a assume "A a" "a < length h"
  with assms(2) have "a \<noteq> new" by auto
  with \<open>A a\<close> \<open>a < length h\<close> show "A a \<and> a < length (h[new := c]) \<and> h[new := c] ! a = h ! a"
    by simp
qed

lemma reprIn_weaken:
  assumes "reprIn A h v t" and "\<And>a. A a \<Longrightarrow> B a"
  shows "reprIn B h v t"
  using assms(1) by (rule reprIn_transfer) (use assms(2) in auto)

lemma bindO_Returns:
  "m = (Returns x, h) \<Longrightarrow> bindO m f = f x h"
  "m = (Raises e, h) \<Longrightarrow> bindO m f = (Raises e, h)"
  by (simp_all add: bindO_def)

lemma pushElement_cell:
  "new < length h \<Longrightarrow> h ! new = HArray ys \<Longrightarrow> pushElement new y h = h[new := HArray (ys @ [y])]"
  by (simp add: pushElement_def cellAt_def)

lemma setField_cell:
  "new < length h \<Longrightarrow> h ! new = HObject fs \<Longrightarrow>
   setField new k v h = h[new := HObject (AList.update k v fs)]"
  by (simp add: setField_def cellAt_def)

lemma update_fresh: "k \<notin> fst ` set fs \<Longrightarrow> AList.update k v fs = fs @ [(k, v)]"
  by (induction fs) auto

lemma mapElementsH_refines:
  assumes self: "refinesUpTo N nm w wt B self" and frame: "\<And>n. keepsBelow n self"
    and sz: "\<forall>x \<in> set ts. size x < B"
  shows "N \<le> new \<Longrightarrow> new < length h \<Longrightarrow> reprIn (\<lambda>a. a < N) h src (Arr ts) \<Longrightarrow>
    reprIn (\<lambda>a. a < N) h w wt \<Longrightarrow> h ! new = HArray ys \<Longrightarrow>
    list_all2 (reprIn (\<lambda>a. a < N \<or> new < a) h) ys tys \<Longrightarrow> i + k = length ts \<Longrightarrow>
    (case replaceElements (Str nm) wt (drop i ts) of
       Inl e \<Rightarrow> fst (mapElementsH self src i k new h) = Raises e
     | Inr rest \<Rightarrow>
         fst (mapElementsH self src i k new h) = Returns () \<and>
         new < length (snd (mapElementsH self src i k new h)) \<and>
         (\<exists>ys'. snd (mapElementsH self src i k new h) ! new = HArray ys' \<and>
            list_all2 (reprIn (\<lambda>a. a < N \<or> new < a) (snd (mapElementsH self src i k new h)))
              ys' (tys @ rest)))"
proof (induction k arbitrary: i h ys tys)
  case 0
  then show ?case by auto
next
  case (Suc k)
  from Suc.prems(3) obtain vs where
    vs: "elementsH h src = Some vs" "list_all2 (reprIn (\<lambda>a. a < N) h) vs ts"
    using reprIn_elements [of "\<lambda>a. a < N" h src "Arr ts"] by auto
  from Suc.prems(7) have i: "i < length ts" by simp
  with vs have iv: "i < length vs" by (simp add: list_all2_lengthD)
  let ?x = "vs ! i" and ?tx = "ts ! i"
  have x: "reprIn (\<lambda>a. a < N) h ?x ?tx" using vs(2) i by (simp add: list_all2_nthD2)
  have el: "elementAt h src i = ?x" using vs(1) iv by (simp add: elementAt_def)
  have dr: "drop i ts = ?tx # drop (Suc i) ts" using i by (simp add: Cons_nth_drop_Suc)
  have szx: "size ?tx < B" using sz i by simp
  have Nh: "N \<le> length h" using Suc.prems(1,2) by simp
  from self szx Nh x Suc.prems(4) have
    s: "case replaceIdentifier (Str nm) wt ?tx of
          Inl e \<Rightarrow> fst (self ?x h) = Raises e
        | Inr t' \<Rightarrow> (\<exists>v'. fst (self ?x h) = Returns v' \<and>
                   reprIn (\<lambda>a. a < N \<or> length h \<le> a) (snd (self ?x h)) v' t')"
    unfolding refinesUpTo_def by blast
  show ?case
  proof (cases "replaceIdentifier (Str nm) wt ?tx")
    case (Inl e)
    with s have "fst (self ?x h) = Raises e" by simp
    then have "self ?x h = (Raises e, snd (self ?x h))" by (metis prod.collapse)
    then show ?thesis using Inl dr el by (simp add: bindO_Returns)
  next
    case (Inr ty)
    with s obtain y where y: "fst (self ?x h) = Returns y"
      and ry: "reprIn (\<lambda>a. a < N \<or> length h \<le> a) (snd (self ?x h)) y ty" by auto
    let ?h1 = "snd (self ?x h)"
    let ?h2 = "?h1[new := HArray (ys @ [y])]"
    have run: "self ?x h = (Returns y, ?h1)" using y by (metis prod.collapse)
    have fr: "length h \<le> length ?h1" "take (length h) ?h1 = h"
      using frame [of "length h"] by (simp_all add: keepsBelow_def)
    have new1: "new < length ?h1" "?h1 ! new = HArray ys"
      using fr Suc.prems(2,5) by (auto simp: agree_below)
    have push: "pushElement new y ?h1 = ?h2" using new1 by (rule pushElement_cell)
    have step: "mapElementsH self src i (Suc k) new h = mapElementsH self src (Suc i) k new ?h2"
      using run el push by (simp add: bindO_Returns)
    have notnew: "\<not> (new < N \<or> new < new)" using Suc.prems(1) by simp
    have below: "reprIn (\<lambda>a. a < N) ?h2 z tz" if "reprIn (\<lambda>a. a < N) h z tz" for z tz
    proof -
      from that fr have "reprIn (\<lambda>a. a < N) ?h1 z tz" by (rule reprIn_extend)
      moreover have "\<not> new < N" using Suc.prems(1) by simp
      ultimately show ?thesis by (rule reprIn_update_other)
    qed
    have src2: "reprIn (\<lambda>a. a < N) ?h2 src (Arr ts)" using Suc.prems(3) by (rule below)
    have w2: "reprIn (\<lambda>a. a < N) ?h2 w wt" using Suc.prems(4) by (rule below)
    have keep: "reprIn (\<lambda>a. a < N \<or> new < a) ?h2 z tz"
      if "reprIn (\<lambda>a. a < N \<or> new < a) h z tz" for z tz
    proof -
      from that fr have "reprIn (\<lambda>a. a < N \<or> new < a) ?h1 z tz" by (rule reprIn_extend)
      then show ?thesis using notnew by (rule reprIn_update_other)
    qed
    have ys2: "list_all2 (reprIn (\<lambda>a. a < N \<or> new < a) ?h2) ys tys"
      using Suc.prems(6) by (rule list_all2_mono) (rule keep)
    have "reprIn (\<lambda>a. a < N \<or> new < a) ?h1 y ty"
      using ry by (rule reprIn_weaken) (use Suc.prems(2) in auto)
    then have y2: "reprIn (\<lambda>a. a < N \<or> new < a) ?h2 y ty"
      using notnew by (rule reprIn_update_other)
    have all2: "list_all2 (reprIn (\<lambda>a. a < N \<or> new < a) ?h2) (ys @ [y]) (tys @ [ty])"
      using ys2 y2 by (simp add: list_all2_appendI)
    have "new < length ?h2" "?h2 ! new = HArray (ys @ [y])" using new1 by simp_all
    from Suc.IH [OF Suc.prems(1) this(1) src2 w2 this(2) all2, of "Suc i"] Suc.prems(7)
    have ih: "case replaceElements (Str nm) wt (drop (Suc i) ts) of
       Inl e \<Rightarrow> fst (mapElementsH self src (Suc i) k new ?h2) = Raises e
     | Inr rest \<Rightarrow>
         fst (mapElementsH self src (Suc i) k new ?h2) = Returns () \<and>
         new < length (snd (mapElementsH self src (Suc i) k new ?h2)) \<and>
         (\<exists>ys'. snd (mapElementsH self src (Suc i) k new ?h2) ! new = HArray ys' \<and>
            list_all2 (reprIn (\<lambda>a. a < N \<or> new < a) (snd (mapElementsH self src (Suc i) k new ?h2)))
              ys' ((tys @ [ty]) @ rest))"
      by simp
    show ?thesis
    proof (cases "replaceElements (Str nm) wt (drop (Suc i) ts)")
      case (Inl e)
      with ih Inr dr show ?thesis unfolding step by simp
    next
      case r: (Inr rest)
      with ih Inr dr show ?thesis unfolding step by simp
    qed
  qed
qed

text \<open>One field value, and the loop over the keys.\<close>

lemma replaceValueH_refines:
  assumes self: "refinesUpTo N nm w wt B self" and frame: "\<And>n. keepsBelow n self"
    and Nh: "N \<le> length h" and v: "reprIn (\<lambda>a. a < N) h v tv"
    and w: "reprIn (\<lambda>a. a < N) h w wt" and sz: "childrenBelow B tv"
  shows "case replaceValue (Str nm) wt tv of
           Inl e \<Rightarrow> fst (replaceValueH self v h) = Raises e
         | Inr tv' \<Rightarrow>
             (\<exists>v'. fst (replaceValueH self v h) = Returns v' \<and>
                   reprIn (\<lambda>a. a < N \<or> length h \<le> a) (snd (replaceValueH self v h)) v' tv')"
proof (cases tv)
  case (Arr ts)
  from v Arr obtain vs where vs: "elementsH h v = Some vs" "list_all2 (reprIn (\<lambda>a. a < N) h) vs ts"
    using reprIn_elements [of "\<lambda>a. a < N" h v tv] by auto
  let ?new = "length h" and ?h1 = "h @ [HArray []]"
  let ?m = "mapElementsH self v 0 (length vs) ?new ?h1"
  have ext: "length h \<le> length ?h1" "take (length h) ?h1 = h" by simp_all
  have v1: "reprIn (\<lambda>a. a < N) ?h1 v (Arr ts)" using v Arr ext by (auto intro: reprIn_extend)
  have w1: "reprIn (\<lambda>a. a < N) ?h1 w wt" using w ext by (rule reprIn_extend)
  have len: "0 + length vs = length ts" using vs(2) by (simp add: list_all2_lengthD)
  have szs: "\<forall>x \<in> set ts. size x < B" using sz Arr by (simp add: childrenBelow_def)
  have m: "case replaceElements (Str nm) wt (drop 0 ts) of
       Inl e \<Rightarrow> fst ?m = Raises e
     | Inr rest \<Rightarrow>
         fst ?m = Returns () \<and> ?new < length (snd ?m) \<and>
         (\<exists>ys'. snd ?m ! ?new = HArray ys' \<and>
            list_all2 (reprIn (\<lambda>a. a < N \<or> ?new < a) (snd ?m)) ys' ([] @ rest))"
    by (rule mapElementsH_refines [OF self frame szs Nh _ v1 w1 _ _ len]) simp_all
  have rv: "replaceValueH self v h = bindO ?m (\<lambda>u h'. (Returns (HRef ?new), h'))"
    using vs(1) by (simp add: replaceValueH_def)
  show ?thesis
  proof (cases "replaceElements (Str nm) wt ts")
    case (Inl e)
    with m have "fst ?m = Raises e" by simp
    then have "?m = (Raises e, snd ?m)" by (metis prod.collapse)
    then show ?thesis using Inl Arr rv by (simp add: bindO_Returns)
  next
    case (Inr rest)
    with m obtain ys' where f: "fst ?m = Returns ()" and l: "?new < length (snd ?m)"
      and c: "snd ?m ! ?new = HArray ys'"
      and r: "list_all2 (reprIn (\<lambda>a. a < N \<or> ?new < a) (snd ?m)) ys' rest" by auto
    from f have "?m = (Returns (), snd ?m)" by (metis prod.collapse)
    then have res: "replaceValueH self v h = (Returns (HRef ?new), snd ?m)"
      using rv by (simp add: bindO_Returns)
    have "list_all2 (reprIn (\<lambda>a. a < N \<or> ?new \<le> a) (snd ?m)) ys' rest"
      using r by (rule list_all2_mono) (erule reprIn_weaken, auto)
    then have "reprIn (\<lambda>a. a < N \<or> ?new \<le> a) (snd ?m) (HRef ?new) (Arr rest)"
      using l c by (intro reprIn.intros(7) [where vs = ys']) simp_all
    then show ?thesis using Inr Arr res by simp
  qed
next
  case (Obj kvs)
  from v Obj have el: "elementsH h v = None"
    using reprIn_elements [of "\<lambda>a. a < N" h v tv] by simp
  from v Obj obtain a where a: "v = HRef a" by (auto simp: reprIn_tree_simps)
  have rv: "replaceValueH self v h = self v h" using el a by (simp add: replaceValueH_def)
  have "size tv < B" using sz Obj by (simp add: childrenBelow_def)
  with self Nh v w have
    "case replaceIdentifier (Str nm) wt tv of
       Inl e \<Rightarrow> fst (self v h) = Raises e
     | Inr t' \<Rightarrow> (\<exists>v'. fst (self v h) = Returns v' \<and>
                reprIn (\<lambda>a. a < N \<or> length h \<le> a) (snd (self v h)) v' t')"
    unfolding refinesUpTo_def by blast
  moreover have "replaceValue (Str nm) wt tv = replaceIdentifier (Str nm) wt tv"
    unfolding Obj by (simp only: replaceValue.simps)
  ultimately show ?thesis by (simp only: rv)
next
  case Undefined
  with v have "v = HUndefined" by (simp add: reprIn_tree_simps)
  then show ?thesis using Undefined
    by (simp add: replaceValueH_def reprIn.intros)
next
  case Null
  with v have "v = HNull" by (simp add: reprIn_tree_simps)
  then show ?thesis using Null
    by (simp add: replaceValueH_def reprIn.intros)
next
  case (Bool b)
  with v have "v = HBool b" by (simp add: reprIn_tree_simps)
  then show ?thesis using Bool
    by (simp add: replaceValueH_def reprIn.intros)
next
  case (Num n)
  with v have "v = HNum n" by (simp add: reprIn_tree_simps)
  then show ?thesis using Num
    by (simp add: replaceValueH_def reprIn.intros)
next
  case (Str s)
  with v have "v = HStr s" by (simp add: reprIn_tree_simps)
  then show ?thesis using Str
    by (simp add: replaceValueH_def reprIn.intros)
qed

lemma reprIn_below_agree:
  assumes "reprIn (\<lambda>a. a < N) h0 z tz" and "take N h = take N h0" and "N \<le> length h"
  shows "reprIn (\<lambda>a. a < N) h z tz"
  using assms(1)
proof (rule reprIn_transfer)
  fix a assume a: "a < N" "a < length h0"
  have "h ! a = take N h ! a" using a by simp
  also have "\<dots> = h0 ! a" using a assms(2) by simp
  finally show "a < N \<and> a < length h \<and> h ! a = h0 ! a" using a assms(3) by simp
qed

lemma replaceValueH_keeps:
  assumes "\<And>n. keepsBelow n self"
  shows "length h \<le> length (snd (replaceValueH self v h)) \<and>
         take (length h) (snd (replaceValueH self v h)) = h"
  using replaceValueH_frame [OF assms, of "length h" h v] by simp

lemma reduceKeysH_refines:
  assumes self: "refinesUpTo N nm w wt B self" and frame: "\<And>n. keepsBelow n self"
    and stable: "\<And>h'. N \<le> length h' \<Longrightarrow> take N h' = take N h0 \<Longrightarrow> ownFields h' inAst = fs"
    and keys: "map fst fs = map fst kvs" "distinct (map fst kvs)"
    and vals: "list_all2 (reprIn (\<lambda>a. a < N) h0) (map snd fs) (map snd kvs)"
    and sz: "\<forall>(k, tv) \<in> set kvs. childrenBelow B tv"
  shows "N \<le> new \<Longrightarrow> new < length h \<Longrightarrow> take N h = take N h0 \<Longrightarrow>
    reprIn (\<lambda>a. a < N) h w wt \<Longrightarrow> kvs = kdone @ krem \<Longrightarrow> h ! new = HObject fdone \<Longrightarrow>
    map fst fdone = map fst kdone \<Longrightarrow> map fst rdone = map fst kdone \<Longrightarrow>
    list_all2 (reprIn (\<lambda>a. a < N \<or> new < a) h) (map snd fdone) (map snd rdone) \<Longrightarrow>
    (case replaceFields (Str nm) wt krem of
       Inl e \<Rightarrow> fst (reduceKeysH self inAst (map fst krem) new h) = Raises e
     | Inr rrem \<Rightarrow>
         fst (reduceKeysH self inAst (map fst krem) new h) = Returns () \<and>
         new < length (snd (reduceKeysH self inAst (map fst krem) new h)) \<and>
         (\<exists>fs'. snd (reduceKeysH self inAst (map fst krem) new h) ! new = HObject fs' \<and>
            map fst fs' = map fst (rdone @ rrem) \<and>
            list_all2 (reprIn (\<lambda>a. a < N \<or> new < a)
                         (snd (reduceKeysH self inAst (map fst krem) new h)))
              (map snd fs') (map snd (rdone @ rrem))))"
proof (induction krem arbitrary: h kdone fdone rdone)
  case Nil
  then show ?case by auto
next
  case (Cons kv krem)
  obtain k tv where kv: "kv = (k, tv)" by (cases kv)
  have Nh: "N \<le> length h" using Cons.prems(1,2) by simp
  have own: "ownFields h inAst = fs" using Nh Cons.prems(3) by (rule stable)
  have valsh: "list_all2 (reprIn (\<lambda>a. a < N) h) (map snd fs) (map snd kvs)"
    using vals by (rule list_all2_mono) (rule reprIn_below_agree [OF _ Cons.prems(3) Nh])
  have mem: "(k, tv) \<in> set kvs" using Cons.prems(5) kv by simp
  then have "map_of kvs k = Some tv" using keys(2) by (intro map_of_is_SomeI)
  then have fk: "field kvs k = tv" by (simp add: field_def)
  have val: "reprIn (\<lambda>a. a < N) h (fieldH fs k) tv"
    using reprIn_field [OF keys(1) valsh, of k] fk by simp
  have cb: "childrenBelow B tv" using sz mem by auto
  let ?rv = "replaceValueH self (fieldH fs k) h"
  note rvspec = replaceValueH_refines [OF self frame Nh val Cons.prems(4) cb]
  have red: "reduceKeysH self inAst (map fst (kv # krem)) new h =
             bindO ?rv (\<lambda>v h. reduceKeysH self inAst (map fst krem) new (setField new k v h))"
    using kv own by simp
  show ?case
  proof (cases "replaceValue (Str nm) wt tv")
    case (Inl e)
    with rvspec have "fst ?rv = Raises e" by simp
    then have "?rv = (Raises e, snd ?rv)" by (metis prod.collapse)
    then show ?thesis using Inl kv red by (simp add: bindO_Returns)
  next
    case (Inr tv')
    with rvspec obtain v' where f: "fst ?rv = Returns v'"
      and rv': "reprIn (\<lambda>a. a < N \<or> length h \<le> a) (snd ?rv) v' tv'" by auto
    let ?h1 = "snd ?rv"
    let ?h2 = "?h1[new := HObject (fdone @ [(k, v')])]"
    have run: "?rv = (Returns v', ?h1)" using f by (metis prod.collapse)
    have fr: "length h \<le> length ?h1" "take (length h) ?h1 = h"
      using replaceValueH_keeps [OF frame, of h "fieldH fs k"] by simp_all
    have new1: "new < length ?h1" "?h1 ! new = HObject fdone"
      using fr Cons.prems(2,6) by (auto simp: agree_below)
    have "distinct (map fst kdone @ k # map fst krem)"
      using keys(2) Cons.prems(5) kv by simp
    then have "k \<notin> set (map fst kdone)" by simp
    then have "k \<notin> set (map fst fdone)" using Cons.prems(7) by simp
    then have fresh: "k \<notin> fst ` set fdone" by simp
    have set2: "setField new k v' ?h1 = ?h2"
      using new1 fresh by (simp add: setField_cell update_fresh)
    have step: "reduceKeysH self inAst (map fst (kv # krem)) new h =
                reduceKeysH self inAst (map fst krem) new ?h2"
      unfolding red using run set2 by (simp add: bindO_Returns)
    have notnew: "\<not> (new < N \<or> new < new)" using Cons.prems(1) by simp
    have keep: "reprIn (\<lambda>a. a < N \<or> new < a) ?h2 z tz"
      if "reprIn (\<lambda>a. a < N \<or> new < a) h z tz" for z tz
    proof -
      from that fr have "reprIn (\<lambda>a. a < N \<or> new < a) ?h1 z tz" by (rule reprIn_extend)
      then show ?thesis using notnew by (rule reprIn_update_other)
    qed
    have "take N (take (length h) ?h1) = take N ?h1" using Nh by (simp add: min_def)
    then have "take N ?h1 = take N h" using fr(2) by simp
    then have t2: "take N ?h2 = take N h0"
      using Cons.prems(1,3) by simp
    have N2: "N \<le> length ?h2" using Nh fr by simp
    have "length (take N h) = length (take N h0)" using Cons.prems(3) by simp
    then have N0: "N \<le> length h0" using Nh by simp
    have "reprIn (\<lambda>a. a < N) h0 w wt"
      using Cons.prems(4) by (rule reprIn_below_agree) (use Cons.prems(3) N0 in auto)
    then have w2: "reprIn (\<lambda>a. a < N) ?h2 w wt" using t2 N2 by (rule reprIn_below_agree)
    have "reprIn (\<lambda>a. a < N \<or> new < a) ?h1 v' tv'"
      using rv' by (rule reprIn_weaken) (use Cons.prems(2) in auto)
    then have v2: "reprIn (\<lambda>a. a < N \<or> new < a) ?h2 v' tv'"
      using notnew by (rule reprIn_update_other)
    have done2: "list_all2 (reprIn (\<lambda>a. a < N \<or> new < a) ?h2)
                   (map snd (fdone @ [(k, v')])) (map snd (rdone @ [(k, tv')]))"
      using list_all2_mono [OF Cons.prems(9) keep] v2 by (simp add: list_all2_appendI)
    have "new < length ?h2" "?h2 ! new = HObject (fdone @ [(k, v')])" using new1 by simp_all
    from Cons.IH [OF Cons.prems(1) this(1) t2 w2 _ this(2) _ _ done2, of "kdone @ [kv]"]
      Cons.prems(5,7,8) kv
    have ih: "case replaceFields (Str nm) wt krem of
       Inl e \<Rightarrow> fst (reduceKeysH self inAst (map fst krem) new ?h2) = Raises e
     | Inr rrem \<Rightarrow>
         fst (reduceKeysH self inAst (map fst krem) new ?h2) = Returns () \<and>
         new < length (snd (reduceKeysH self inAst (map fst krem) new ?h2)) \<and>
         (\<exists>fs'. snd (reduceKeysH self inAst (map fst krem) new ?h2) ! new = HObject fs' \<and>
            map fst fs' = map fst ((rdone @ [(k, tv')]) @ rrem) \<and>
            list_all2 (reprIn (\<lambda>a. a < N \<or> new < a)
                         (snd (reduceKeysH self inAst (map fst krem) new ?h2)))
              (map snd fs') (map snd ((rdone @ [(k, tv')]) @ rrem)))"
      by simp
    show ?thesis
    proof (cases "replaceFields (Str nm) wt krem")
      case (Inl e)
      with ih Inr kv show ?thesis unfolding step by simp
    next
      case r: (Inr rrem)
      with ih Inr kv show ?thesis unfolding step by simp
    qed
  qed
qed

text \<open>The keys \<open>Object.keys\<close> lists on the heap are those of the tree.\<close>

lemma length_indexKeys [simp]: "length (indexKeys n) = n"
  by (simp add: indexKeys_def)

lemma replaceFields_zip:
  "length ks = length xs \<Longrightarrow>
   replaceFields n w (zip ks xs) =
     (case replaceValues n w xs of Inl e \<Rightarrow> Inl e | Inr ys \<Rightarrow> Inr (zip ks ys))"
  by (induction ks xs rule: list_induct2) (auto split: sum.splits)

lemma replaceFields_chars:
  "length ks = length s \<Longrightarrow>
   replaceFields n w (zip ks (map (\<lambda>c. Str [c]) s)) = Inr (zip ks (map (\<lambda>c. Str [c]) s))"
  by (induction ks s rule: list_induct2) auto

lemma replaceValues_length:
  "replaceValues n w xs = Inr ys \<Longrightarrow> length ys = length xs"
  by (induction xs arbitrary: ys) (auto split: sum.splits)

lemma replaceFields_keys:
  "replaceFields n w kvs = Inr r \<Longrightarrow> map fst r = map fst kvs"
  by (induction kvs arbitrary: r) (auto split: sum.splits)

lemma replaceIdentifier_fields:
  assumes "t \<noteq> Undefined" "t \<noteq> Null"
    and "\<And>kvs. t = Obj kvs \<Longrightarrow> \<not> isIdentifier n kvs \<and> shadowedAt n kvs = Inr False"
  shows "replaceIdentifier n w t =
     (case replaceFields n w (ownFieldsP t) of Inl e \<Rightarrow> Inl e | Inr r \<Rightarrow> Inr (Obj r))"
proof (cases t)
  case (Str s)
  then show ?thesis by (simp add: replaceFields_chars)
next
  case (Arr ts)
  then show ?thesis by (simp add: replaceFields_zip split: sum.splits)
next
  case (Obj kvs)
  with assms(3) show ?thesis by (simp split: sum.splits)
qed (use assms in simp_all)

lemma ownFields_rel:
  assumes "reprIn A h v t"
  shows "map fst (ownFields h v) = map fst (ownFieldsP t) \<and>
         distinct (map fst (ownFieldsP t)) \<and>
         list_all2 (reprIn A h) (map snd (ownFields h v)) (map snd (ownFieldsP t))"
  using assms
proof (cases rule: reprIn.cases)
  case (6 a fs kvs)
  then show ?thesis by (simp add: cellAt_def)
next
  case (7 a vs ts)
  then have "length vs = length ts" by (simp add: list_all2_lengthD)
  with 7 show ?thesis by (simp add: cellAt_def distinct_indexKeys)
next
  case (5 s)
  have "list_all2 (reprIn A h) (map (\<lambda>c. HStr [c]) s) (map (\<lambda>c. Str [c]) s)"
    by (induction s) (auto intro: reprIn.intros)
  with 5 show ?thesis by (simp add: distinct_indexKeys)
qed simp_all

lemma ownFields_stable:
  assumes "reprIn (\<lambda>a. a < N) h v t" and "N \<le> length h'" and "take N h' = take N h"
  shows "ownFields h' v = ownFields h v"
  using assms(1)
proof (cases rule: reprIn.cases)
  case (6 a fs kvs)
  have "h' ! a = take N h' ! a" using 6 by simp
  also have "\<dots> = h ! a" using 6 assms(3) by simp
  finally show ?thesis using 6 assms(2) by (simp add: cellAt_def)
next
  case (7 a vs ts)
  have "h' ! a = take N h' ! a" using 7 by simp
  also have "\<dots> = h ! a" using 7 assms(3) by simp
  finally show ?thesis using 7 assms(2) by (simp add: cellAt_def)
qed simp_all

lemma children_sizes:
  assumes "size t \<le> B"
  shows "\<forall>(k, tv) \<in> set (ownFieldsP t). childrenBelow B tv"
proof (clarify)
  fix k tv assume m: "(k, tv) \<in> set (ownFieldsP t)"
  have lt: "size tv < size t \<or> (\<exists>c. tv = Str [c])"
  proof (cases t)
    case (Obj kvs)
    with m show ?thesis by (auto dest: size_field)
  next
    case (Arr ts)
    with m have "tv \<in> set ts" by (auto dest: set_zip_rightD)
    with Arr show ?thesis by (auto dest: size_element)
  next
    case (Str s)
    with m show ?thesis by (auto dest!: set_zip_rightD)
  qed (use m in auto)
  show "childrenBelow B tv"
  proof (cases tv)
    case (Arr ts)
    with lt have "size (Arr ts) < size t" by auto
    with assms Arr show ?thesis
      by (auto simp: childrenBelow_def dest!: size_element)
  next
    case (Obj kvs)
    with lt assms show ?thesis by (auto simp: childrenBelow_def)
  qed (simp_all add: childrenBelow_def)
qed

text \<open>With more fuel than the size of the tree, the call on the heap returns or raises as the
  call on the tree does, and what it returns stands for the tree computed there.\<close>

lemma scan_other:
  assumes "reprIn A h v t" and "t \<noteq> Undefined" "t \<noteq> Null" and "\<And>kvs. t \<noteq> Obj kvs"
  shows "isIdentifierH h (HStr nm) v = Inr False \<and> shadowedAtH h (HStr nm) v = Inr False"
  using assms
  by (cases rule: reprIn.cases)
     (auto simp: isIdentifierH_def shadowedAtH_def cellAt_def)

lemma replaceIdentifierH_refines:
  "refinesUpTo N nm w wt fuel (replaceIdentifierH fuel (HStr nm) w)"
proof (induction fuel)
  case 0
  then show ?case by (simp add: refinesUpTo_def)
next
  case (Suc f)
  let ?self = "replaceIdentifierH f (HStr nm) w"
  note frame = replaceIdentifierH_keepsBelow [of _ f "HStr nm" w]
  show ?case
    unfolding refinesUpTo_def
  proof (intro allI impI)
    fix t v and h :: heap
    assume sz: "size t < Suc f" and Nh: "N \<le> length h"
      and v: "reprIn (\<lambda>a. a < N) h v t" and w: "reprIn (\<lambda>a. a < N) h w wt"
    let ?run = "replaceIdentifierH (Suc f) (HStr nm) w v h"
    let ?goal = "case replaceIdentifier (Str nm) wt t of
           Inl e \<Rightarrow> fst ?run = Raises e
         | Inr t' \<Rightarrow> (\<exists>v'. fst ?run = Returns v' \<and>
                   reprIn (\<lambda>a. a < N \<or> length h \<le> a) (snd ?run) v' t')"
    have loop: ?goal
      if nn: "t \<noteq> Undefined" "t \<noteq> Null"
        and pure: "\<And>kvs. t = Obj kvs \<Longrightarrow> \<not> isIdentifier (Str nm) kvs \<and> shadowedAt (Str nm) kvs = Inr False"
        and heap: "isIdentifierH h (HStr nm) v = Inr False" "shadowedAtH h (HStr nm) v = Inr False"
    proof -
      let ?new = "length h" and ?h1 = "h @ [HObject []]"
      let ?fs = "ownFields h v" and ?kvs = "ownFieldsP t"
      let ?r = "reduceKeysH ?self v (map fst ?fs) ?new ?h1"
      from ownFields_rel [OF v] have
        keys: "map fst ?fs = map fst ?kvs" and dist: "distinct (map fst ?kvs)"
        and vals: "list_all2 (reprIn (\<lambda>a. a < N) h) (map snd ?fs) (map snd ?kvs)" by simp_all
      have stable: "ownFields h' v = ?fs" if "N \<le> length h'" "take N h' = take N h" for h'
        using v that by (rule ownFields_stable)
      have sizes: "\<forall>(k, tv) \<in> set ?kvs. childrenBelow f tv"
        using sz by (intro children_sizes) simp
      have w1: "reprIn (\<lambda>a. a < N) ?h1 w wt" using w by (rule reprIn_extend) simp_all
      have t1: "take N ?h1 = take N h" using Nh by simp
      have r: "case replaceFields (Str nm) wt ?kvs of
         Inl e \<Rightarrow> fst (reduceKeysH ?self v (map fst ?kvs) ?new ?h1) = Raises e
       | Inr rrem \<Rightarrow>
           fst (reduceKeysH ?self v (map fst ?kvs) ?new ?h1) = Returns () \<and>
           ?new < length (snd (reduceKeysH ?self v (map fst ?kvs) ?new ?h1)) \<and>
           (\<exists>fs'. snd (reduceKeysH ?self v (map fst ?kvs) ?new ?h1) ! ?new = HObject fs' \<and>
              map fst fs' = map fst ([] @ rrem) \<and>
              list_all2 (reprIn (\<lambda>a. a < N \<or> ?new < a)
                           (snd (reduceKeysH ?self v (map fst ?kvs) ?new ?h1)))
                (map snd fs') (map snd ([] @ rrem)))"
        by (rule reduceKeysH_refines [OF Suc.IH frame stable keys dist vals sizes Nh _ t1 w1,
              where kdone = "[]" and fdone = "[]"]) simp_all
      have run: "?run = bindO ?r (\<lambda>u h'. (Returns (HRef ?new), h'))"
        using heap by simp
      have p: "replaceIdentifier (Str nm) wt t =
         (case replaceFields (Str nm) wt ?kvs of Inl e \<Rightarrow> Inl e | Inr r \<Rightarrow> Inr (Obj r))"
        using nn pure by (rule replaceIdentifier_fields)
      show ?thesis
      proof (cases "replaceFields (Str nm) wt ?kvs")
        case (Inl e)
        with r keys have "fst ?r = Raises e" by simp
        then have "?r = (Raises e, snd ?r)" by (metis prod.collapse)
        then show ?thesis unfolding run p Inl by (simp add: bindO_Returns)
      next
        case (Inr rrem)
        with r keys obtain fs' where f: "fst ?r = Returns ()" and l: "?new < length (snd ?r)"
          and c: "snd ?r ! ?new = HObject fs'" and k: "map fst fs' = map fst rrem"
          and a: "list_all2 (reprIn (\<lambda>a. a < N \<or> ?new < a) (snd ?r)) (map snd fs') (map snd rrem)"
          by auto
        from f have "?r = (Returns (), snd ?r)" by (metis prod.collapse)
        then have res: "?run = (Returns (HRef ?new), snd ?r)"
          unfolding run by (simp add: bindO_Returns)
        have "map fst rrem = map fst ?kvs" using Inr by (rule replaceFields_keys)
        with k dist have d: "distinct (map fst fs')" by simp
        have "list_all2 (reprIn (\<lambda>a. a < N \<or> ?new \<le> a) (snd ?r)) (map snd fs') (map snd rrem)"
          using a by (rule list_all2_mono) (erule reprIn_weaken, auto)
        then have "reprIn (\<lambda>a. a < N \<or> ?new \<le> a) (snd ?r) (HRef ?new) (Obj rrem)"
          using l c d k by (intro reprIn.intros(6) [where fs = fs']) simp_all
        then show ?thesis unfolding p Inr res by simp
      qed
    qed
    show ?goal
    proof (cases t)
      case Undefined
      with v have "v = HUndefined" by (simp add: reprIn_tree_simps)
      with Undefined show ?thesis by (simp add: isIdentifierH_def)
    next
      case Null
      with v have "v = HNull" by (simp add: reprIn_tree_simps)
      with Null show ?thesis by (simp add: isIdentifierH_def)
    next
      case (Obj kvs)
      note id = isIdentifier_rel [OF v [unfolded Obj], of nm]
      note sh = shadowedAt_rel [OF v [unfolded Obj], of nm]
      show ?thesis
      proof (cases "isIdentifier (Str nm) kvs")
        case True
        have "reprIn (\<lambda>a. a < N \<or> length h \<le> a) h w wt"
          using w by (rule reprIn_weaken) simp
        with True id Obj show ?thesis by simp
      next
        case False
        show ?thesis
        proof (cases "shadowedAt (Str nm) kvs")
          case (Inl e)
          with False id sh Obj show ?thesis by simp
        next
          case (Inr b)
          show ?thesis
          proof (cases b)
            case True
            have "reprIn (\<lambda>a. a < N \<or> length h \<le> a) h v t"
              using v by (rule reprIn_weaken) simp
            with True Inr False id sh Obj show ?thesis by simp
          next
            case b: False
            show ?thesis
              by (rule loop) (use Obj False Inr b id sh in simp_all)
          qed
        qed
      qed
    next
      case (Arr ts)
      show ?thesis
        by (rule loop) (use Arr scan_other [OF v, of nm] in simp_all)
    next
      case (Str s)
      show ?thesis
        by (rule loop) (use Str scan_other [OF v, of nm] in simp_all)
    next
      case (Bool b)
      show ?thesis
        by (rule loop) (use Bool scan_other [OF v, of nm] in simp_all)
    next
      case (Num n)
      show ?thesis
        by (rule loop) (use Num scan_other [OF v, of nm] in simp_all)
    qed
  qed
qed

theorem replaceIdentifierH_refines_value_model:
  assumes "reprIn (\<lambda>a. a < length h) h inAst t" and "reprIn (\<lambda>a. a < length h) h withAst wt"
    and "size t < fuel"
  shows "case replaceIdentifier (Str nm) wt t of
           Inl e \<Rightarrow> fst (replaceIdentifierH fuel (HStr nm) withAst inAst h) = Raises e
         | Inr t' \<Rightarrow>
             (\<exists>v'. fst (replaceIdentifierH fuel (HStr nm) withAst inAst h) = Returns v' \<and>
                   reprIn (\<lambda>a. True) (snd (replaceIdentifierH fuel (HStr nm) withAst inAst h)) v' t')"
proof -
  from replaceIdentifierH_refines [of "length h" nm withAst wt fuel] assms
  have "case replaceIdentifier (Str nm) wt t of
           Inl e \<Rightarrow> fst (replaceIdentifierH fuel (HStr nm) withAst inAst h) = Raises e
         | Inr t' \<Rightarrow>
             (\<exists>v'. fst (replaceIdentifierH fuel (HStr nm) withAst inAst h) = Returns v' \<and>
                   reprIn (\<lambda>a. a < length h \<or> length h \<le> a)
                     (snd (replaceIdentifierH fuel (HStr nm) withAst inAst h)) v' t')"
    unfolding refinesUpTo_def by blast
  then show ?thesis
    by (auto split: sum.splits elim: reprIn_weaken)
qed

lemma replaceIdentifierH_result:
  "fst (replaceIdentifierH fuel name withAst inAst h) = Returns v \<Longrightarrow>
   v = withAst \<or> v = inAst \<or> v = HRef (length h)"
  by (cases fuel)
     (auto simp: bindO_def split: sum.splits bool.splits prod.splits outcome.splits)

lemma represents_below: "represents h v t \<Longrightarrow> reprIn (\<lambda>a. a < length h) h v t"
  unfolding represents_def by (erule reprIn_transfer) simp

text \<open>
  Claim C9.  Whatever the fuel and whatever the outcome, a call of \<open>replaceIdentifier\<close>
  only adds cells to the heap: every cell that existed before the call is the same after
  it, so the target tree, the replacement tree and any other tree on the heap stand for
  the same value as before.  What is returned is a freshly allocated object, or the
  replacement itself (an identifier that matched), or the node itself (a shadowing
  statement list).  And when the arguments stand for trees and the fuel exceeds the size of
  the target tree, the call does not run out of fuel: it raises where the function on
  trees raises, and otherwise returns a value that stands for the tree computed there.
\<close>

theorem replaceIdentifier_leaves_inputs:
  "length h \<le> length (snd (replaceIdentifierH fuel name withAst inAst h)) \<and>
   take (length h) (snd (replaceIdentifierH fuel name withAst inAst h)) = h \<and>
   (represents h v t \<longrightarrow> represents (snd (replaceIdentifierH fuel name withAst inAst h)) v t) \<and>
   (fst (replaceIdentifierH fuel name withAst inAst h) = Returns r \<longrightarrow>
      r = withAst \<or> r = inAst \<or> r = HRef (length h)) \<and>
   (represents h inAst tree \<and> represents h withAst wt \<and> name = HStr nm \<and> size tree < fuel \<longrightarrow>
      (case replaceIdentifier (Str nm) wt tree of
         Inl e \<Rightarrow> fst (replaceIdentifierH fuel name withAst inAst h) = Raises e
       | Inr tree' \<Rightarrow>
           (\<exists>v'. fst (replaceIdentifierH fuel name withAst inAst h) = Returns v' \<and>
                 represents (snd (replaceIdentifierH fuel name withAst inAst h)) v' tree')))"
proof (intro conjI impI)
  note fr = replaceIdentifierH_frame [of h fuel name withAst inAst]
  show "length h \<le> length (snd (replaceIdentifierH fuel name withAst inAst h))" using fr by simp
  show "take (length h) (snd (replaceIdentifierH fuel name withAst inAst h)) = h" using fr by simp
  show "represents (snd (replaceIdentifierH fuel name withAst inAst h)) v t" if "represents h v t"
    using that fr unfolding represents_def by (auto intro: reprIn_extend)
  show "r = withAst \<or> r = inAst \<or> r = HRef (length h)"
    if "fst (replaceIdentifierH fuel name withAst inAst h) = Returns r"
    using that by (rule replaceIdentifierH_result)
  show "case replaceIdentifier (Str nm) wt tree of
         Inl e \<Rightarrow> fst (replaceIdentifierH fuel name withAst inAst h) = Raises e
       | Inr tree' \<Rightarrow>
           (\<exists>v'. fst (replaceIdentifierH fuel name withAst inAst h) = Returns v' \<and>
                 represents (snd (replaceIdentifierH fuel name withAst inAst h)) v' tree')"
    if a: "represents h inAst tree \<and> represents h withAst wt \<and> name = HStr nm \<and> size tree < fuel"
  proof -
    from a have n: "name = HStr nm" and s: "size tree < fuel" by simp_all
    from a have "reprIn (\<lambda>a. a < length h) h inAst tree" "reprIn (\<lambda>a. a < length h) h withAst wt"
      by (simp_all add: represents_below)
    from replaceIdentifierH_refines_value_model [OF this s, of nm]
    show ?thesis unfolding n represents_def .
  qed
qed

lemma showInt_digits: "showInt 1 = ''1''" "showInt 2 = ''2''"
  by code_simp+

lemma heapTimesTwo_represents:
  "represents heapTimesTwo (HRef 3) timesTwo" "represents heapTimesTwo (HRef 6) aPlus1"
  unfolding timesTwo_def aPlus1_def mkReturn_def mkBinary_def mkIdentifier_def mkLiteral_def
    represents_def
  by (simp_all add: heapTimesTwo_def showInt_digits reprIn_simps)

lemma timesTwo_value:
  "replaceIdentifier (Str ''x'') aPlus1 timesTwo = Inr (mkReturn (mkBinary ''*'' aPlus1 (mkLiteral 2)))"
  by (simp add: timesTwo_def mkReturn_def mkBinary_def mkIdentifier_def mkLiteral_def
        isIdentifier_def shadowedAt_def field_def aPlus1_def)

lemma heapTimesTwo_run:
  "fst (replaceIdentifierH 30 (HStr ''x'') (HRef 6) (HRef 3) heapTimesTwo) = Returns (HRef 7)"
  by code_simp

text \<open>\<open>return x*2;\<close> with \<open>a+1\<close> for \<open>x\<close>: the call returns a value that stands for
  \<open>return (a+1)*2;\<close>, and the seven cells of the two input trees are as before.\<close>

theorem replaceIdentifier_leaves_inputs_witness:
  "fst (replaceIdentifierH 30 (HStr ''x'') (HRef 6) (HRef 3) heapTimesTwo) = Returns (HRef 7) \<and>
   take 7 (snd (replaceIdentifierH 30 (HStr ''x'') (HRef 6) (HRef 3) heapTimesTwo)) = heapTimesTwo \<and>
   represents (snd (replaceIdentifierH 30 (HStr ''x'') (HRef 6) (HRef 3) heapTimesTwo)) (HRef 3) timesTwo \<and>
   represents (snd (replaceIdentifierH 30 (HStr ''x'') (HRef 6) (HRef 3) heapTimesTwo)) (HRef 6) aPlus1 \<and>
   (\<exists>v'. fst (replaceIdentifierH 30 (HStr ''x'') (HRef 6) (HRef 3) heapTimesTwo) = Returns v' \<and>
         represents (snd (replaceIdentifierH 30 (HStr ''x'') (HRef 6) (HRef 3) heapTimesTwo)) v'
           (mkReturn (mkBinary ''*'' aPlus1 (mkLiteral 2))))"
proof -
  have l: "length heapTimesTwo = 7" by (simp add: heapTimesTwo_def)
  have s: "size timesTwo < 30"
    by (simp add: timesTwo_def mkReturn_def mkBinary_def mkIdentifier_def mkLiteral_def)
  from replaceIdentifier_leaves_inputs [of heapTimesTwo 30 "HStr ''x''" "HRef 6" "HRef 3" "HRef 3"
      timesTwo _ timesTwo aPlus1 "''x''"]
    replaceIdentifier_leaves_inputs [of heapTimesTwo 30 "HStr ''x''" "HRef 6" "HRef 3" "HRef 6"
      aPlus1 _ timesTwo aPlus1 "''x''"]
    heapTimesTwo_represents heapTimesTwo_run l s timesTwo_value
  show ?thesis by simp
qed

end
